theory Spec2Isabelle
  imports Main "HOL-Library.Sublist" "HOL-Library.Char_ord" "HOL-Library.List_Lexorder"
begin

section \<open>Python strings\<close>

text \<open>
  Strings are byte strings (\<open>char list\<close>).  Case conversion is the ASCII one of
  Python 2's \<open>str.upper\<close> / \<open>str.lower\<close>: bytes outside \<open>a..z\<close> / \<open>A..Z\<close> are left alone.
\<close>

definition lowers :: string where
  "lowers = ''abcdefghijklmnopqrstuvwxyz''"

definition uppers :: string where
  "uppers = ''ABCDEFGHIJKLMNOPQRSTUVWXYZ''"

definition upper_char :: "char \<Rightarrow> char" where
  "upper_char c = (case map_of (zip lowers uppers) c of Some u \<Rightarrow> u | None \<Rightarrow> c)"

definition lower_char :: "char \<Rightarrow> char" where
  "lower_char c = (case map_of (zip uppers lowers) c of Some l \<Rightarrow> l | None \<Rightarrow> c)"

definition upper :: "string \<Rightarrow> string" where
  "upper s = map upper_char s"

definition lower :: "string \<Rightarrow> string" where
  "lower s = map lower_char s"

text \<open>\<open>sep.join(xs)\<close>.\<close>

fun join :: "string \<Rightarrow> string list \<Rightarrow> string" where
  "join sep [] = []"
| "join sep [x] = x"
| "join sep (x # y # ys) = x @ sep @ join sep (y # ys)"

text \<open>
  Splitting at every character of a class: \<open>re.split('[ ._]', s)\<close> and \<open>s.split(',')\<close>.
  The empty string splits into one empty token, two adjacent separators give an empty
  token between them.
\<close>

fun cons_hd :: "char \<Rightarrow> string list \<Rightarrow> string list" where
  "cons_hd c [] = [[c]]"
| "cons_hd c (t # ts) = (c # t) # ts"

fun split_on :: "(char \<Rightarrow> bool) \<Rightarrow> string \<Rightarrow> string list" where
  "split_on p [] = [[]]"
| "split_on p (c # cs) = (if p c then [] # split_on p cs else cons_hd c (split_on p cs))"

text \<open>\<open>s.split("::")\<close>: the two-character separator is looked for from the left.\<close>

fun split_colons :: "string \<Rightarrow> string list" where
  "split_colons [] = [[]]"
| "split_colons [a] = [[a]]"
| "split_colons (a # b # cs) =
     (if a = CHR '':'' \<and> b = CHR '':'' then [] # split_colons cs
      else cons_hd a (split_colons (b # cs)))"

text \<open>\<open>s.strip()\<close> removes leading and trailing ASCII whitespace.\<close>

definition is_space :: "char \<Rightarrow> bool" where
  "is_space c = (c \<in> set [CHR '' '', CHR 0x09, CHR 0x0A, CHR 0x0B, CHR 0x0C, CHR 0x0D])"

definition strip :: "string \<Rightarrow> string" where
  "strip s = rev (dropWhile is_space (rev (dropWhile is_space s)))"

text \<open>A string between single quotes, as the messages format their arguments.\<close>

definition quoted :: "string \<Rightarrow> string" where
  "quoted s = [CHR 0x27] @ s @ [CHR 0x27]"

text \<open>\<open>s.replace(old, new)\<close> for a non-empty \<open>old\<close>: non-overlapping occurrences, leftmost first.\<close>

function str_replace :: "string \<Rightarrow> string \<Rightarrow> string \<Rightarrow> string" where
  "str_replace old new s =
     (if old = [] \<or> s = [] then s
      else if prefix old s then new @ str_replace old new (drop (length old) s)
      else hd s # str_replace old new (tl s))"
  by pat_completeness auto
termination
  by (relation "measure (\<lambda>(old, new, s). length s)") (auto simp: neq_Nil_conv)

declare str_replace.simps [simp del]

section \<open>Paths\<close>

text \<open>\<open>posixpath.split(p)\<close>: head up to and including the last slash (trailing slashes of
  a head that is not all slashes are removed), tail after it.\<close>

definition rfind_slash_tail :: "string \<Rightarrow> string" where
  "rfind_slash_tail p = rev (takeWhile (\<lambda>c. c \<noteq> CHR ''/'') (rev p))"

definition posixpath_split :: "string \<Rightarrow> string \<times> string" where
  "posixpath_split p =
     (let tail = rfind_slash_tail p;
          head = take (length p - length tail) p;
          head' = (if head \<noteq> [] \<and> filter (\<lambda>c. c \<noteq> CHR ''/'') head \<noteq> []
                   then rev (dropWhile (\<lambda>c. c = CHR ''/'') (rev head)) else head)
      in (head', tail))"

text \<open>
  \<open>posixpath.splitext(p)\<close>: the extension starts at the last dot of the last path
  component, unless only dots precede it in that component.
\<close>

definition splitext :: "string \<Rightarrow> string \<times> string" where
  "splitext p =
     (let comp = rfind_slash_tail p;
          dir = take (length p - length comp) p;
          ext = rev (takeWhile (\<lambda>c. c \<noteq> CHR ''.'') (rev comp));
          root = take (length comp - length ext - 1) comp
      in if CHR ''.'' \<in> set comp \<and> filter (\<lambda>c. c \<noteq> CHR ''.'') root \<noteq> []
         then (dir @ root, CHR ''.'' # ext) else (p, []))"

text \<open>\<open>os.path.join(a, b)\<close> on POSIX: an absolute second component replaces the first.\<close>

definition os_path_join :: "string \<Rightarrow> string \<Rightarrow> string" where
  "os_path_join a b =
     (if b \<noteq> [] \<and> hd b = CHR ''/'' then b
      else if a = [] \<or> last a = CHR ''/'' then a @ b
      else a @ ''/'' @ b)"

section \<open>Errors\<close>

text \<open>
  The exceptions of the module; \<open>ConfigNotFound\<close> is a subclass of \<open>ConfigError\<close>.
  Each carries its argument: a message, or for a \<open>KeyError\<close> raised by a mapping the
  missing key (\<open>KeyError_pair\<close> when that key is a (section, key) tuple).
\<close>

datatype error =
    Exception string
  | ConfigError string
  | ConfigNotFound string
  | KeyError string
  | KeyError_pair "string \<times> string"
  | AttributeError string

section \<open>Flow normalization: \<open>get_flow_id\<close>\<close>

definition is_digit :: "char \<Rightarrow> bool" where
  "is_digit c = (c \<in> set ''0123456789'')"

definition digits_at :: "nat \<Rightarrow> string \<Rightarrow> bool" where
  "digits_at n s = (n \<le> length s \<and> list_all is_digit (take n s))"

text \<open>
  Whether one of the alternatives of the pattern
  \<^verbatim>\<open>[0-9]{8}.*|[0-9]{6}_.*|(?i)WE[0-9]{6}.*|(?i)D[0-9]{6}.*\<close>
  matches at the head of \<open>s\<close>.  The inline flag \<open>(?i)\<close> is global in Python 2, so the
  letters match in either case.
\<close>

definition tag_at :: "string \<Rightarrow> bool" where
  "tag_at s =
     (digits_at 8 s
      \<or> (digits_at 6 s \<and> take 1 (drop 6 s) = ''_'')
      \<or> (upper (take 2 s) = ''WE'' \<and> digits_at 6 (drop 2 s))
      \<or> (upper (take 1 s) = ''D'' \<and> digits_at 6 (drop 1 s)))"

text \<open>
  \<open>re.sub(pattern, "", s)\<close>.  Every alternative ends in a greedy \<open>.*\<close>, and \<open>.\<close> does not
  match a line feed: a match deletes from its start to the end of the line, and the
  search goes on at the line feed.  The flag says whether the scan is inside a match.
\<close>

fun re_sub_scan :: "bool \<Rightarrow> string \<Rightarrow> string" where
  "re_sub_scan inside [] = []"
| "re_sub_scan True (c # cs) =
     (if c = CHR 0x0A then c # re_sub_scan False cs else re_sub_scan True cs)"
| "re_sub_scan False (c # cs) =
     (if tag_at (c # cs) then re_sub_scan True cs else c # re_sub_scan False cs)"

definition re_sub :: "string \<Rightarrow> string" where
  "re_sub s = re_sub_scan False s"

definition is_sep :: "char \<Rightarrow> bool" where
  "is_sep c = (c \<in> set '' ._'')"

definition error_msg :: "string \<Rightarrow> string \<Rightarrow> string" where
  "error_msg orig_filename normname =
     ''Flow ID normalized '' @ quoted orig_filename
     @ '' to a blank value ('' @ quoted normname
     @ ''), please check filename and process for potential unexpected behavior.''"

definition normname :: "string \<Rightarrow> string" where
  "normname orig_filename =
     (let filename = fst (splitext (snd (posixpath_split orig_filename)))
      in join ''_'' (filter (\<lambda>x. x \<noteq> []) (split_on is_sep (upper (re_sub filename)))))"

text \<open>
  \<open>get_flow_id\<close>: \<open>None\<close> and the empty string are falsy, and the function then falls off
  its end and returns \<open>None\<close>.
\<close>

definition get_flow_id :: "string option \<Rightarrow> error + string option" where
  "get_flow_id orig_filename =
     (case orig_filename of
        None \<Rightarrow> Inr None
      | Some orig \<Rightarrow>
          if orig = [] then Inr None
          else if normname orig = [] then Inl (Exception (error_msg orig (normname orig)))
          else Inr (Some (normname orig)))"

text \<open>
  The normalization as the specification words it: strip directory and extension, delete
  the trailing suffix that starts at the first date or version tag, split on spaces, dots
  and underscores, drop empty tokens, join with underscores, upper-case.
\<close>

fun delete_suffix :: "string \<Rightarrow> string" where
  "delete_suffix [] = []"
| "delete_suffix (c # cs) = (if tag_at (c # cs) then [] else c # delete_suffix cs)"

definition spec_normalize :: "string \<Rightarrow> string" where
  "spec_normalize orig_filename =
     upper (join ''_'' (filter (\<lambda>x. x \<noteq> [])
       (split_on is_sep (delete_suffix (fst (splitext (snd (posixpath_split orig_filename))))))))"

section \<open>Dictionaries\<close>

text \<open>
  A Python \<open>dict\<close> is an association list with distinct keys; \<open>d[k] = v\<close> replaces the
  value of a key already there and appends a new key.  Python 2 iterates a \<open>dict\<close> and a
  \<open>set\<close> in an order of its own; the model iterates in insertion order.
\<close>

fun dict_set :: "'k \<Rightarrow> 'v \<Rightarrow> ('k \<times> 'v) list \<Rightarrow> ('k \<times> 'v) list" where
  "dict_set k v [] = [(k, v)]"
| "dict_set k v ((k', v') # d) = (if k' = k then (k, v) # d else (k', v') # dict_set k v d)"

definition dict_update :: "('k \<times> 'v) list \<Rightarrow> ('k \<times> 'v) list \<Rightarrow> ('k \<times> 'v) list" where
  "dict_update d other = foldl (\<lambda>acc (k, v). dict_set k v acc) d other"

definition dict_of :: "('k \<times> 'v) list \<Rightarrow> ('k \<times> 'v) list" where
  "dict_of pairs = dict_update [] pairs"

text \<open>
  Modelled from the spec: \<open>fsd2.core.utils.CaseInsensitiveDict\<close>, the type of the merged
  configuration, is not among the sources.  The specification describes it as a mapping
  whose keys are compared case-insensitively while the casing of the last write is kept
  for iteration.  \<open>nk\<close> normalizes a key for comparison (\<open>lower\<close> for a string key,
  \<open>lower_pair\<close> for a (section, key) pair).
\<close>

fun ci_set :: "('k \<Rightarrow> 'k) \<Rightarrow> 'k \<Rightarrow> 'v \<Rightarrow> ('k \<times> 'v) list \<Rightarrow> ('k \<times> 'v) list" where
  "ci_set nk k v [] = [(k, v)]"
| "ci_set nk k v ((k', v') # d) =
     (if nk k' = nk k then (k, v) # d else (k', v') # ci_set nk k v d)"

fun ci_get :: "('k \<Rightarrow> 'k) \<Rightarrow> ('k \<times> 'v) list \<Rightarrow> 'k \<Rightarrow> 'v option" where
  "ci_get nk [] k = None"
| "ci_get nk ((k', v') # d) k = (if nk k' = nk k then Some v' else ci_get nk d k)"

definition ci_update :: "('k \<Rightarrow> 'k) \<Rightarrow> ('k \<times> 'v) list \<Rightarrow> ('k \<times> 'v) list \<Rightarrow> ('k \<times> 'v) list" where
  "ci_update nk d other = foldl (\<lambda>acc (k, v). ci_set nk k v acc) d other"

definition CaseInsensitiveDict :: "('k \<Rightarrow> 'k) \<Rightarrow> ('k \<times> 'v) list \<Rightarrow> ('k \<times> 'v) list" where
  "CaseInsensitiveDict nk pairs = ci_update nk [] pairs"

definition lower_pair :: "string \<times> string \<Rightarrow> string \<times> string" where
  "lower_pair k = (lower (fst k), lower (snd k))"

text \<open>Running a fallible function over a list; the first failure is the result.\<close>

fun mapM :: "('a \<Rightarrow> error + 'b) \<Rightarrow> 'a list \<Rightarrow> error + 'b list" where
  "mapM f [] = Inr []"
| "mapM f (x # xs) =
     (case f x of
        Inl e \<Rightarrow> Inl e
      | Inr y \<Rightarrow> (case mapM f xs of Inl e \<Rightarrow> Inl e | Inr ys \<Rightarrow> Inr (y # ys)))"

section \<open>Configuration sources and the file store\<close>

text \<open>
  \<open>ConfigFile\<close>, \<open>LocalFile\<close> and \<open>LocalDirectory\<close> are collaborators outside the sources.
  A parsed source is taken as what it answers: its path, its file handle, its parse style,
  its raw headers, what \<open>iteritems()\<close> yields (string keys for a SIMPLE source, (section,
  key) pairs for a FULL one), \<open>conf_file[header]\<close> (\<open>None\<close> when it raises \<open>KeyError\<close>) and
  \<open>conf_file[(section, key)]\<close>.
\<close>

datatype parsestyle = PARSE_SIMPLE | PARSE_FULL

record LocalFile =
  fpath :: string

record ConfigFile =
  path :: string
  cfile :: LocalFile
  parsestyle :: parsestyle
  headers :: "string list"
  simple_items :: "(string \<times> string) list"
  full_items :: "((string \<times> string) \<times> string) list"
  section_items :: "string \<Rightarrow> (string \<times> string) list option"
  pair_value :: "string \<times> string \<Rightarrow> string option"

text \<open>
  The file store: the environment name of \<open>get_fs_env()\<close>, the files of the configuration
  directory as \<open>iter_contents(files=True, dirs=False, recursive=False)\<close> lists them, and
  the constructor \<open>ConfigFile(path, checkexists=b)\<close> (\<open>None\<close> for the flag left at its
  default), whose result is \<open>None\<close> when it raises.
\<close>

record file_store =
  fs_env :: string
  iter_contents :: "LocalFile list"
  ConfigFile_new :: "string \<Rightarrow> bool option \<Rightarrow> ConfigFile option"

definition CM_PATH :: "file_store \<Rightarrow> string" where
  "CM_PATH env = ''/datalakebin/'' @ fs_env env @ ''/fsd/consumption/conf/''"

definition CM_MASK :: string where
  "CM_MASK = ''CM_FSD_*.prm''"

definition CM_FLOW_MASK :: string where
  "CM_FLOW_MASK = str_replace ''*'' ''FLOW_*'' CM_MASK"

definition CM_GEN_MASK :: string where
  "CM_GEN_MASK = str_replace ''*'' ''GEN_*'' CM_FLOW_MASK"

text \<open>\<open>fnmatch(name, pattern)\<close> on POSIX (case-sensitive) for patterns of literals, \<open>*\<close>
  and \<open>?\<close>; the masks of the module have no bracket expression.\<close>

fun fnmatch :: "string \<Rightarrow> string \<Rightarrow> bool" where
  "fnmatch [] [] = True"
| "fnmatch (c # cs) [] = False"
| "fnmatch [] (p # ps) = (p = CHR ''*'' \<and> fnmatch [] ps)"
| "fnmatch (c # cs) (p # ps) =
     (if p = CHR ''*'' then fnmatch (c # cs) ps \<or> fnmatch cs (p # ps)
      else (p = CHR ''?'' \<or> p = c) \<and> fnmatch cs ps)"

section \<open>Namespace loading: \<open>get_configs\<close>\<close>

definition make_conf_path :: "file_store \<Rightarrow> string \<Rightarrow> string" where
  "make_conf_path env namespace = os_path_join (CM_PATH env) (namespace @ ''.prm'')"

definition load_err_msg :: "string \<Rightarrow> string \<Rightarrow> string" where
  "load_err_msg namespace conf_pth =
     ''Problem loading configuration file for namespace '' @ quoted namespace
     @ '' at path '' @ quoted conf_pth @ ''.''"

text \<open>The loop of \<open>get_configs\<close> over the namespaces, \<open>rtn_confs\<close> being the dictionary
  built so far.\<close>

fun get_configs_loop ::
  "file_store \<Rightarrow> bool \<Rightarrow> (string \<times> ConfigFile) list \<Rightarrow> string list
   \<Rightarrow> error + (string \<times> ConfigFile) list" where
  "get_configs_loop env required rtn_confs [] = Inr rtn_confs"
| "get_configs_loop env required rtn_confs (namespace # rest) =
     (let ns = upper namespace; conf_pth = make_conf_path env ns
      in case ConfigFile_new env conf_pth (Some required) of
           Some conf \<Rightarrow> get_configs_loop env required (dict_set ns conf rtn_confs) rest
         | None \<Rightarrow>
             if required then Inl (ConfigNotFound (load_err_msg ns conf_pth))
             else get_configs_loop env required rtn_confs rest)"

definition get_configs ::
  "file_store \<Rightarrow> string list \<Rightarrow> bool \<Rightarrow> error + (string \<times> ConfigFile) list" where
  "get_configs env namespaces required = get_configs_loop env required [] namespaces"

section \<open>Stacking: \<open>process_configs\<close>\<close>

text \<open>The case-insensitive dictionary one source contributes: every key of a SIMPLE
  source under the section \<open>''\<close>, the (section, key) pairs of any other source as they are.\<close>

definition interim_dict :: "ConfigFile \<Rightarrow> ((string \<times> string) \<times> string) list" where
  "interim_dict cf =
     (if parsestyle cf = PARSE_SIMPLE
      then CaseInsensitiveDict lower_pair (dict_of (map (\<lambda>(k, v). (([], k), v)) (simple_items cf)))
      else CaseInsensitiveDict lower_pair (dict_of (map (\<lambda>((a, b), c). ((a, b), c)) (full_items cf))))"

fun process_configs_loop ::
  "(string \<times> ConfigFile) list \<Rightarrow> ((string \<times> string) \<times> string) list \<Rightarrow> string list
   \<Rightarrow> error + ((string \<times> string) \<times> string) list" where
  "process_configs_loop confs_dict fullconf [] = Inr fullconf"
| "process_configs_loop confs_dict fullconf (k # ks) =
     (case map_of confs_dict k of
        None \<Rightarrow> Inl (KeyError k)
      | Some cf \<Rightarrow>
          process_configs_loop confs_dict (ci_update lower_pair fullconf (interim_dict cf)) ks)"

definition process_configs ::
  "(string \<times> ConfigFile) list \<Rightarrow> error + ((string \<times> string) \<times> string) list" where
  "process_configs confs_dict = process_configs_loop confs_dict [] (sort (map fst confs_dict))"

section \<open>Flattening a generic source: \<open>process_genconf\<close>\<close>

text \<open>\<open>headers[k].add(x)\<close> on a \<open>defaultdict(set)\<close>; a set is a list without repetition.\<close>

definition set_add :: "string \<Rightarrow> string list \<Rightarrow> string list" where
  "set_add x s = (if x \<in> set s then s else s @ [x])"

definition headers_add ::
  "string \<Rightarrow> string \<Rightarrow> (string \<times> string list) list \<Rightarrow> (string \<times> string list) list" where
  "headers_add k x hs =
     (case map_of hs k of
        None \<Rightarrow> dict_set k [x] hs
      | Some s \<Rightarrow> dict_set k (set_add x s) hs)"

text \<open>The first loop: the headers are split on \<open>::\<close> and entered under their base name,
  with \<open>''\<close> for a header without qualifier and the qualifier as written when its lower case
  is the (lower-cased) flow ID.\<close>

fun enumerate_headers ::
  "string \<Rightarrow> (string \<times> string list) list \<Rightarrow> string list \<Rightarrow> (string \<times> string list) list" where
  "enumerate_headers flow_id hs [] = hs"
| "enumerate_headers flow_id hs (fk # fks) =
     enumerate_headers flow_id
       (case split_colons fk of
          [] \<Rightarrow> hs
        | k # ns \<Rightarrow>
            (case ns of
               [] \<Rightarrow> headers_add k [] hs
             | n0 # _ \<Rightarrow> if lower n0 = flow_id then headers_add k n0 hs else hs))
       fks"

text \<open>The base fields: \<open>dict(conf_file[k])\<close> for every base name that has an unqualified header.\<close>

fun base_fields ::
  "ConfigFile \<Rightarrow> (string \<times> (string \<times> string) list) list \<Rightarrow> (string \<times> string list) list
   \<Rightarrow> error + (string \<times> (string \<times> string) list) list" where
  "base_fields conf_file fb [] = Inr fb"
| "base_fields conf_file fb ((k, nset) # rest) =
     (if [] \<in> set nset
      then (case section_items conf_file k of
              None \<Rightarrow> Inl (KeyError k)
            | Some sec \<Rightarrow> base_fields conf_file (dict_set k (dict_of sec) fb) rest)
      else base_fields conf_file fb rest)"

text \<open>\<open>fields_base[k].update(ns_dict)\<close> on a \<open>defaultdict(dict)\<close>.\<close>

definition fields_update ::
  "string \<Rightarrow> (string \<times> string) list \<Rightarrow> (string \<times> (string \<times> string) list) list
   \<Rightarrow> (string \<times> (string \<times> string) list) list" where
  "fields_update k ns_dict fb =
     (case map_of fb k of
        None \<Rightarrow> dict_set k (dict_update [] ns_dict) fb
      | Some sd \<Rightarrow> dict_set k (dict_update sd ns_dict) fb)"

text \<open>
  The second loop: for every base name with a qualifier left, one qualifier is popped and
  the fields of the header \<open>k::qualifier\<close> are laid over the base fields.  Which element
  \<open>set.pop()\<close> returns is Python's choice: \<open>pop\<close> is that choice.
\<close>

fun flow_fields ::
  "(string list \<Rightarrow> string) \<Rightarrow> ConfigFile \<Rightarrow> (string \<times> (string \<times> string) list) list
   \<Rightarrow> (string \<times> string list) list \<Rightarrow> error + (string \<times> (string \<times> string) list) list" where
  "flow_fields pop conf_file fb [] = Inr fb"
| "flow_fields pop conf_file fb ((k, nset) # rest) =
     (if nset \<noteq> []
      then (let ns_flow = pop nset; ns_key = k @ ''::'' @ ns_flow
            in case section_items conf_file ns_key of
                 None \<Rightarrow> Inl (KeyError ns_key)
               | Some sec \<Rightarrow> flow_fields pop conf_file (fields_update k (dict_of sec) fb) rest)
      else flow_fields pop conf_file fb rest)"

definition flatten_fields ::
  "(string \<times> (string \<times> string) list) list \<Rightarrow> ((string \<times> string) \<times> string) list" where
  "flatten_fields fb = concat (map (\<lambda>(k, sd). map (\<lambda>(sk, sv). ((k, sk), sv)) sd) fb)"

definition process_genconf ::
  "(string list \<Rightarrow> string) \<Rightarrow> ConfigFile \<Rightarrow> string
   \<Rightarrow> error + ((string \<times> string) \<times> string) list" where
  "process_genconf pop conf_file flow_id0 =
     (let flow_id = lower flow_id0;
          hdrs = enumerate_headers flow_id [] (headers conf_file)
      in case base_fields conf_file [] hdrs of
           Inl e \<Rightarrow> Inl e
         | Inr fields_base \<Rightarrow>
             (case flow_fields pop conf_file fields_base
                     (map (\<lambda>(k, nset). (k, removeAll [] nset)) hdrs) of
                Inl e \<Rightarrow> Inl e
              | Inr fields_all \<Rightarrow>
                  Inr (CaseInsensitiveDict lower_pair (dict_of (flatten_fields fields_all)))))"

section \<open>Flow resolution: \<open>get_config_by_flow\<close>\<close>

definition list_config_files :: "file_store \<Rightarrow> string \<Rightarrow> LocalFile list" where
  "list_config_files env file_mask =
     filter (\<lambda>f. fnmatch (snd (posixpath_split (fpath f))) file_mask) (iter_contents env)"

text \<open>\<open>list_configs\<close> yields the sources that parse; a file whose parse raises is logged
  and left out.\<close>

definition list_configs :: "file_store \<Rightarrow> LocalFile list \<Rightarrow> ConfigFile list" where
  "list_configs env fs = List.map_filter (\<lambda>f. ConfigFile_new env (fpath f) None) fs"

definition genconf_filter :: "string \<Rightarrow> ConfigFile \<Rightarrow> bool" where
  "genconf_filter flow_id cfg =
     (flow_id \<in> set (map (\<lambda>flow_name. strip (upper flow_name))
        (split_on (\<lambda>c. c = CHR '','')
           (case pair_value cfg (''flow_setup'', ''for_flows'') of Some v \<Rightarrow> v | None \<Rightarrow> []))))"

definition not_found_msg :: "string \<Rightarrow> string" where
  "not_found_msg flow_id =
     ''No configuration file found for handling flow_id '' @ quoted flow_id @ ''.''"

definition ambiguous_msg :: "string \<Rightarrow> ConfigFile list \<Rightarrow> string" where
  "ambiguous_msg flow_id all_genconf =
     ''More than one configuration file was found for handling flow_id '' @ quoted flow_id
     @ '' ('' @ join '','' (map (\<lambda>cfg. fpath (cfile cfg)) all_genconf) @ '')''"

definition flow_namespace :: "string \<Rightarrow> string" where
  "flow_namespace flow_id = str_replace ''.prm'' [] (str_replace ''*'' flow_id CM_FLOW_MASK)"

definition get_config_by_flow :: "file_store \<Rightarrow> string \<Rightarrow> error + ConfigFile" where
  "get_config_by_flow env flow_id0 =
     (let flow_id = upper flow_id0;
          namespace = flow_namespace flow_id
      in case get_configs env [namespace] False of
           Inl e \<Rightarrow> Inl e
         | Inr conf_file \<Rightarrow>
             (case conf_file of
                (ns, cf) # _ \<Rightarrow> Inr cf
              | [] \<Rightarrow>
                  (case filter (genconf_filter flow_id)
                          (list_configs env (list_config_files env CM_GEN_MASK)) of
                     [cfg] \<Rightarrow> Inr cfg
                   | [] \<Rightarrow> Inl (ConfigNotFound (not_found_msg flow_id))
                   | cfg # cfg' # cfgs \<Rightarrow>
                       Inl (ConfigError (ambiguous_msg flow_id (cfg # cfg' # cfgs))))))"

section \<open>The facade: \<open>ConfigManager\<close>\<close>

record ConfigManager =
  configfiles :: "(string \<times> ConfigFile) list"
  confs :: "((string \<times> string) \<times> string) list"

text \<open>
  \<open>__init__(*args, flow=..., filename=...)\<close>.  A flow that is \<open>None\<close> or empty is falsy and
  the flow ID is then derived from the file name; no flow is resolved when that gives
  \<open>None\<close> too.
\<close>

definition requested_flow :: "string option \<Rightarrow> string option \<Rightarrow> error + string option" where
  "requested_flow flow filename =
     (case flow of
        Some f \<Rightarrow> if f \<noteq> [] then Inr (Some f) else get_flow_id filename
      | None \<Rightarrow> get_flow_id filename)"

definition init ::
  "file_store \<Rightarrow> (string list \<Rightarrow> string) \<Rightarrow> string list \<Rightarrow> string option \<Rightarrow> string option
   \<Rightarrow> error + ConfigManager" where
  "init env pop req_namespaces flow filename =
     (case get_configs env req_namespaces True of
        Inl e \<Rightarrow> Inl e
      | Inr cfs \<Rightarrow>
          (case process_configs cfs of
             Inl e \<Rightarrow> Inl e
           | Inr stacked \<Rightarrow>
               (case requested_flow flow filename of
                  Inl e \<Rightarrow> Inl e
                | Inr None \<Rightarrow> Inr \<lparr>configfiles = cfs, confs = stacked\<rparr>
                | Inr (Some req_flow) \<Rightarrow>
                    if req_flow = [] then Inr \<lparr>configfiles = cfs, confs = stacked\<rparr>
                    else (case get_config_by_flow env req_flow of
                            Inl e \<Rightarrow> Inl e
                          | Inr flow_conf \<Rightarrow>
                              (case process_genconf pop flow_conf req_flow of
                                 Inl e \<Rightarrow> Inl e
                               | Inr flow_dict \<Rightarrow>
                                   Inr \<lparr>configfiles = cfs,
                                        confs = ci_update lower_pair stacked flow_dict\<rparr>)))))"

text \<open>\<open>__getitem__\<close>: a string asks for a section and gets a dictionary, a pair asks for
  one value.\<close>

datatype key_arg = Str string | Tup string string

datatype item = SubDict "(string \<times> string) list" | Value string

definition confs_getitem ::
  "((string \<times> string) \<times> string) list \<Rightarrow> string \<times> string \<Rightarrow> error + string" where
  "confs_getitem d k = (case ci_get lower_pair d k of None \<Rightarrow> Inl (KeyError_pair k) | Some v \<Rightarrow> Inr v)"

definition getitem :: "ConfigManager \<Rightarrow> key_arg \<Rightarrow> error + item" where
  "getitem self key =
     (case key of
        Str s \<Rightarrow>
          (case mapM (\<lambda>(v, w). case confs_getitem (confs self) (v, w) of
                                  Inl e \<Rightarrow> Inl e | Inr x \<Rightarrow> Inr (w, x))
                  (filter (\<lambda>(v, w). v = lower s) (map fst (confs self))) of
             Inl e \<Rightarrow> Inl e
           | Inr pairs \<Rightarrow>
               (let rtndict = CaseInsensitiveDict lower (dict_of pairs)
                in if rtndict \<noteq> [] then Inr (SubDict rtndict)
                   else Inl (KeyError (''Key '' @ quoted s @ '' not present''))))
      | Tup a b \<Rightarrow>
          (case confs_getitem (confs self) (a, b) of Inl e \<Rightarrow> Inl e | Inr v \<Rightarrow> Inr (Value v)))"

definition iter_keys :: "ConfigManager \<Rightarrow> (string \<times> string) list" where
  "iter_keys self = map fst (confs self)"

definition len :: "ConfigManager \<Rightarrow> nat" where
  "len self = length (confs self)"

text \<open>
  The property \<open>files\<close>: \<open>list(set(c.path for c in self._configfiles))\<close>.  Iterating the
  dictionary \<open>_configfiles\<close> yields its keys, the namespace names, and a string has no
  attribute \<open>path\<close>.
\<close>

definition str_path :: "string \<Rightarrow> error + string" where
  "str_path c = Inl (AttributeError ''path'')"

definition files :: "ConfigManager \<Rightarrow> error + string list" where
  "files self =
     (case mapM str_path (map fst (configfiles self)) of
        Inl e \<Rightarrow> Inl e
      | Inr paths \<Rightarrow> Inr (remdups paths))"

section \<open>The flow resolution as the specification words it\<close>

text \<open>
  The dedicated namespace of a flow; the generic files by name (\<open>CM_FSD_FLOW_GEN_\<close>, any
  text, \<open>.prm\<close>); the generic candidates, which are the generic files of the directory
  that parse; and whether a candidate lists a flow: an element of the comma-separated
  value of (\<open>flow_setup\<close>, \<open>for_flows\<close>), trimmed of whitespace, equals the flow ID up to
  case.
\<close>

definition is_generic_name :: "string \<Rightarrow> bool" where
  "is_generic_name n = (prefix ''CM_FSD_FLOW_GEN_'' n \<and> suffix ''.prm'' (drop 16 n))"

definition generic_candidates :: "file_store \<Rightarrow> ConfigFile list" where
  "generic_candidates env =
     concat (map (\<lambda>f. if is_generic_name (snd (posixpath_split (fpath f)))
                      then (case ConfigFile_new env (fpath f) None of Some cf \<Rightarrow> [cf] | None \<Rightarrow> [])
                      else [])
               (iter_contents env))"

definition dedicated_namespace :: "string \<Rightarrow> string" where
  "dedicated_namespace flow_id = ''CM_FSD_FLOW_'' @ upper flow_id"

definition lists_flow :: "string \<Rightarrow> ConfigFile \<Rightarrow> bool" where
  "lists_flow flow_id cfg =
     (upper flow_id \<in> set (map (\<lambda>e. upper (strip e))
        (split_on (\<lambda>c. c = CHR '','')
           (case pair_value cfg (''flow_setup'', ''for_flows'') of Some v \<Rightarrow> v | None \<Rightarrow> []))))"

section \<open>The stacking as the specification words it\<close>

text \<open>
  The value of a (section, key) pair in the stack of the namespaces \<open>ns\<close>, given from the
  latest-sorting to the earliest: that of the first namespace whose source has the pair.
\<close>

fun stacked_value ::
  "(string \<times> ConfigFile) list \<Rightarrow> string list \<Rightarrow> string \<times> string \<Rightarrow> string option" where
  "stacked_value confs_dict [] q = None"
| "stacked_value confs_dict (n # ns) q =
     (case map_of confs_dict n of
        None \<Rightarrow> stacked_value confs_dict ns q
      | Some cf \<Rightarrow>
          (case ci_get lower_pair (interim_dict cf) q of
             Some v \<Rightarrow> Some v
           | None \<Rightarrow> stacked_value confs_dict ns q))"

section \<open>Sources and stores for the examples\<close>

text \<open>
  Modelled from the spec: the parser is not among the sources.  A FULL source with the
  given sections (raw header, fields) and a SIMPLE source with the given fields, answering
  as the specification describes a parsed source; and a store holding given sources, whose
  constructor finds a source by its path.
\<close>

definition full_source :: "string \<Rightarrow> (string \<times> (string \<times> string) list) list \<Rightarrow> ConfigFile" where
  "full_source p secs =
     \<lparr>path = p, cfile = \<lparr>fpath = p\<rparr>, parsestyle = PARSE_FULL, headers = map fst secs,
      simple_items = [],
      full_items = concat (map (\<lambda>(h, kvs). map (\<lambda>(k, v). ((h, k), v)) kvs) secs),
      section_items = map_of secs,
      pair_value = (\<lambda>(h, k). case map_of secs h of None \<Rightarrow> None | Some kvs \<Rightarrow> map_of kvs k)\<rparr>"

definition simple_source :: "string \<Rightarrow> (string \<times> string) list \<Rightarrow> ConfigFile" where
  "simple_source p kvs =
     \<lparr>path = p, cfile = \<lparr>fpath = p\<rparr>, parsestyle = PARSE_SIMPLE, headers = [],
      simple_items = kvs, full_items = [],
      section_items = (\<lambda>h. None), pair_value = (\<lambda>k. None)\<rparr>"

definition store_of :: "ConfigFile list \<Rightarrow> file_store" where
  "store_of srcs =
     \<lparr>fs_env = ''dev'', iter_contents = map cfile srcs,
      ConfigFile_new = (\<lambda>p checkexists. find (\<lambda>cf. path cf = p) srcs)\<rparr>"

text \<open>Whether the file of a namespace loads.\<close>

definition loads :: "file_store \<Rightarrow> bool \<Rightarrow> string \<Rightarrow> bool" where
  "loads env required namespace =
     (ConfigFile_new env (make_conf_path env (upper namespace)) (Some required) \<noteq> None)"

text \<open>Two sources in a store: a SIMPLE one for the namespace \<open>CM_FSD_A\<close> and a FULL one
  for \<open>CM_FSD_B\<close>.\<close>

definition srcA :: ConfigFile where
  "srcA = simple_source ''/datalakebin/dev/fsd/consumption/conf/CM_FSD_A.prm'' [(''k'', ''1''), (''j'', ''a'')]"

definition srcB :: ConfigFile where
  "srcB = full_source ''/datalakebin/dev/fsd/consumption/conf/CM_FSD_B.prm'' [(''Sec'', [(''K'', ''2'')]), ([], [(''k'', ''3'')])]"

definition env_ab :: file_store where
  "env_ab = store_of [srcA, srcB]"

text \<open>
  A store for flow resolution: two generic sources, of which both list \<open>flowa\<close> and one lists
  \<open>myflow\<close>, a dedicated source for the flow \<open>ded\<close>, and a generic file that does not parse.
\<close>

definition gen1 :: ConfigFile where
  "gen1 = full_source ''/datalakebin/dev/fsd/consumption/conf/CM_FSD_FLOW_GEN_ONE.prm''
     [(''flow_setup'', [(''for_flows'', ''flowa, myflow'')]),
      (''x'', [(''y'', ''1'')]),
      (''x::myflow'', [(''y'', ''2''), (''z'', ''3'')]),
      (''sec'', [(''k'', ''9'')])]"

definition gen2 :: ConfigFile where
  "gen2 = full_source ''/datalakebin/dev/fsd/consumption/conf/CM_FSD_FLOW_GEN_TWO.prm''
     [(''flow_setup'', [(''for_flows'', ''FLOWA,ded'')])]"

definition ded :: ConfigFile where
  "ded = full_source ''/datalakebin/dev/fsd/consumption/conf/CM_FSD_FLOW_DED.prm''
     [(''x'', [(''y'', ''9'')])]"

definition env_flow :: file_store where
  "env_flow = (store_of [srcA, srcB, gen1, gen2, ded])
     \<lparr>iter_contents :=
        \<lparr>fpath = ''/datalakebin/dev/fsd/consumption/conf/CM_FSD_FLOW_GEN_BAD.prm''\<rparr>
        # map cfile [srcA, srcB, gen1, gen2, ded]\<rparr>"

text \<open>The two sources under their namespaces, entered in either order.\<close>

definition dict_ba :: "(string \<times> ConfigFile) list" where
  "dict_ba = [(''CM_FSD_B'', srcB), (''CM_FSD_A'', srcA)]"

definition dict_ab :: "(string \<times> ConfigFile) list" where
  "dict_ab = [(''CM_FSD_A'', srcA), (''CM_FSD_B'', srcB)]"

section \<open>Lemmas on strings and dictionaries\<close>

lemma map_of_dict_set: "map_of (dict_set k v d) = (map_of d)(k \<mapsto> v)"
  by (induction d) (auto simp: fun_eq_iff)

lemma keys_dict_set: "fst ` set (dict_set k v d) = insert k (fst ` set d)"
proof -
  have "dom (map_of (dict_set k v d)) = insert k (dom (map_of d))"
    by (simp add: map_of_dict_set)
  then show ?thesis
    by (simp add: dom_map_of_conv_image_fst)
qed

lemma distinct_dict_set: "distinct (map fst d) \<Longrightarrow> distinct (map fst (dict_set k v d))"
  by (induction d) (auto simp: keys_dict_set)

lemma sublist_quoted_1: "sublist s (a @ quoted s @ b)"
proof -
  have "a @ quoted s @ b = (a @ [CHR 0x27]) @ s @ ([CHR 0x27] @ b)"
    by (simp add: quoted_def)
  then show ?thesis
    by (simp only: sublist_appendI)
qed

lemma sublist_quoted_2: "sublist s (a @ quoted t @ b @ quoted s @ c)"
proof -
  have "a @ quoted t @ b @ quoted s @ c = (a @ quoted t @ b) @ quoted s @ c"
    by simp
  then show ?thesis
    by (simp only: sublist_quoted_1)
qed

lemma ci_get_ci_set:
  "ci_get nk (ci_set nk k v d) q = (if nk q = nk k then Some v else ci_get nk d q)"
  by (induction d) auto

lemma ci_get_append:
  "ci_get nk (xs @ ys) q = (case ci_get nk xs q of Some v \<Rightarrow> Some v | None \<Rightarrow> ci_get nk ys q)"
  by (induction xs) auto

lemma ci_get_ci_update:
  "ci_get nk (ci_update nk d ps) q
     = (case ci_get nk (rev ps) q of Some v \<Rightarrow> Some v | None \<Rightarrow> ci_get nk d q)"
proof (induction ps arbitrary: d)
  case Nil
  show ?case by (simp add: ci_update_def)
next
  case (Cons p ps)
  obtain k v where p: "p = (k, v)" by (cases p)
  have "ci_update nk d (p # ps) = ci_update nk (ci_set nk k v d) ps"
    by (simp add: ci_update_def p)
  then show ?case
    by (simp add: Cons.IH ci_get_append ci_get_ci_set p split: option.splits)
qed

lemma ci_keys_ci_set:
  "(\<lambda>e. nk (fst e)) ` set (ci_set nk k v d) = insert (nk k) ((\<lambda>e. nk (fst e)) ` set d)"
proof (induction d)
  case Nil
  show ?case by simp
next
  case (Cons e d)
  obtain k' v' where e: "e = (k', v')" by (cases e)
  show ?case
    by (cases "nk k' = nk k") (simp_all add: e Cons.IH insert_commute)
qed

lemma ci_distinct_ci_set:
  "distinct (map (\<lambda>e. nk (fst e)) d) \<Longrightarrow> distinct (map (\<lambda>e. nk (fst e)) (ci_set nk k v d))"
proof (induction d)
  case Nil
  show ?case by simp
next
  case (Cons e d)
  obtain k' v' where e: "e = (k', v')" by (cases e)
  show ?case
  proof (cases "nk k' = nk k")
    case True
    with Cons.prems show ?thesis by (simp add: e)
  next
    case False
    with Cons show ?thesis
      by (simp add: e ci_keys_ci_set)
  qed
qed

lemma ci_distinct_ci_update:
  "distinct (map (\<lambda>e. nk (fst e)) d) \<Longrightarrow> distinct (map (\<lambda>e. nk (fst e)) (ci_update nk d ps))"
proof (induction ps arbitrary: d)
  case Nil
  then show ?case by (simp add: ci_update_def)
next
  case (Cons p ps)
  obtain k v where p: "p = (k, v)" by (cases p)
  have "ci_update nk d (p # ps) = ci_update nk (ci_set nk k v d) ps"
    by (simp add: ci_update_def p)
  with Cons.IH [OF ci_distinct_ci_set [OF Cons.prems]] show ?case by simp
qed

lemma ci_distinct_CaseInsensitiveDict:
  "distinct (map (\<lambda>e. nk (fst e)) (CaseInsensitiveDict nk ps))"
  unfolding CaseInsensitiveDict_def by (rule ci_distinct_ci_update) simp

lemma ci_get_None: "ci_get nk d q = None \<longleftrightarrow> nk q \<notin> (\<lambda>e. nk (fst e)) ` set d"
proof (induction d)
  case Nil
  show ?case by simp
next
  case (Cons e d)
  obtain k' v' where e: "e = (k', v')" by (cases e)
  show ?case
    by (cases "nk k' = nk q") (simp_all add: e Cons.IH eq_commute [of "nk q"])
qed

lemma ci_get_Some_mem: "ci_get nk d q = Some v \<Longrightarrow> \<exists>k. (k, v) \<in> set d \<and> nk k = nk q"
  by (induction d) (auto split: if_splits)

lemma ci_get_distinct_mem:
  "distinct (map (\<lambda>e. nk (fst e)) d) \<Longrightarrow> (k, v) \<in> set d \<Longrightarrow> nk k = nk q \<Longrightarrow> ci_get nk d q = Some v"
proof (induction d)
  case Nil
  then show ?case by simp
next
  case (Cons e d)
  obtain k' v' where e: "e = (k', v')" by (cases e)
  show ?case
  proof (cases "(k, v) = e")
    case True
    with Cons.prems show ?thesis by (simp add: e)
  next
    case False
    with Cons.prems have m: "(k, v) \<in> set d" by simp
    then have "nk k \<in> (\<lambda>e. nk (fst e)) ` set d"
      by (rule rev_image_eqI) simp
    moreover from Cons.prems have "nk k' \<notin> (\<lambda>e. nk (fst e)) ` set d"
      by (simp add: e)
    ultimately have "nk k' \<noteq> nk k" by metis
    with Cons m show ?thesis by (simp add: e)
  qed
qed

lemma ci_get_rev:
  assumes "distinct (map (\<lambda>e. nk (fst e)) d)"
  shows "ci_get nk (rev d) q = ci_get nk d q"
proof (cases "ci_get nk d q")
  case None
  then have "ci_get nk (rev d) q = None" by (simp add: ci_get_None)
  with None show ?thesis by simp
next
  case (Some v)
  then obtain k where "(k, v) \<in> set (rev d)" "nk k = nk q"
    using ci_get_Some_mem by fastforce
  moreover have "distinct (map (\<lambda>e. nk (fst e)) (rev d))"
    using assms by (simp add: rev_map [symmetric])
  ultimately have "ci_get nk (rev d) q = Some v"
    by (rule ci_get_distinct_mem [rotated])
  with Some show ?thesis by simp
qed

lemma ci_get_update_layer:
  assumes "distinct (map (\<lambda>e. nk (fst e)) other)"
  shows "ci_get nk (ci_update nk d other) q
           = (case ci_get nk other q of Some v \<Rightarrow> Some v | None \<Rightarrow> ci_get nk d q)"
  by (simp add: ci_get_ci_update ci_get_rev [OF assms])

lemma set_dict_set: "set (dict_set k v d) \<subseteq> insert (k, v) (set d)"
  by (induction d) (auto split: if_splits)

lemma set_dict_update: "set (dict_update d ps) \<subseteq> set d \<union> set ps"
proof (induction ps arbitrary: d)
  case Nil
  show ?case by (simp add: dict_update_def)
next
  case (Cons p ps)
  obtain k v where p: "p = (k, v)" by (cases p)
  have "dict_update d (p # ps) = dict_update (dict_set k v d) ps"
    by (simp add: dict_update_def p)
  with Cons.IH [of "dict_set k v d"] set_dict_set [of k v d] show ?case
    by (auto simp: p)
qed

lemma keys_dict_update: "fst ` set (dict_update d ps) = fst ` set d \<union> fst ` set ps"
proof (induction ps arbitrary: d)
  case Nil
  show ?case by (simp add: dict_update_def)
next
  case (Cons p ps)
  obtain k v where p: "p = (k, v)" by (cases p)
  have "dict_update d (p # ps) = dict_update (dict_set k v d) ps"
    by (simp add: dict_update_def p)
  with Cons.IH [of "dict_set k v d"] show ?case
    by (auto simp: p keys_dict_set)
qed

lemma ci_get_CaseInsensitiveDict:
  "ci_get nk (CaseInsensitiveDict nk xs) q = ci_get nk (rev xs) q"
  by (simp add: CaseInsensitiveDict_def ci_get_ci_update split: option.splits)

text \<open>A case-insensitive dictionary built from pairs invents nothing, and gives a key its
  value when all pairs of that key up to case agree on it.\<close>

lemma ci_of_pairs_sound:
  assumes "ci_get nk (CaseInsensitiveDict nk (dict_of ps)) q = Some v"
  shows "\<exists>k. (k, v) \<in> set ps \<and> nk k = nk q"
proof -
  from assms have "ci_get nk (rev (dict_of ps)) q = Some v"
    by (simp add: ci_get_CaseInsensitiveDict)
  then obtain k where "(k, v) \<in> set (dict_of ps)" "nk k = nk q"
    using ci_get_Some_mem by fastforce
  moreover have "set (dict_of ps) \<subseteq> set ps"
    using set_dict_update [of "[]" ps] by (simp add: dict_of_def)
  ultimately show ?thesis by blast
qed

lemma ci_of_pairs_complete:
  assumes "(k, v) \<in> set ps" and "nk k = nk q"
    and "\<And>k' v'. (k', v') \<in> set ps \<Longrightarrow> nk k' = nk q \<Longrightarrow> v' = v"
  shows "ci_get nk (CaseInsensitiveDict nk (dict_of ps)) q = Some v"
proof (cases "ci_get nk (CaseInsensitiveDict nk (dict_of ps)) q")
  case None
  then have "nk q \<notin> (\<lambda>e. nk (fst e)) ` set (dict_of ps)"
    by (simp add: ci_get_CaseInsensitiveDict ci_get_None)
  moreover have "k \<in> fst ` set (dict_of ps)"
    using assms(1) keys_dict_update [of "[]" ps] by (force simp: dict_of_def)
  ultimately show ?thesis
    using assms(2) by force
next
  case (Some v')
  from ci_of_pairs_sound [OF this] assms(3) have "v' = v" by blast
  with Some show ?thesis by simp
qed

lemma lower_Nil_iff: "lower s = [] \<longleftrightarrow> s = []"
  by (simp add: lower_def)

section \<open>Flow normalization\<close>

lemma is_sep_upper_char: "is_sep (upper_char c) = is_sep c"
  by (auto simp: upper_char_def is_sep_def lowers_def uppers_def)

lemma split_on_ne: "split_on p s \<noteq> []"
  by (induction s) (auto, case_tac "split_on p s", auto)

lemma cons_hd_map: "xs \<noteq> [] \<Longrightarrow> cons_hd (f c) (map (map f) xs) = map (map f) (cons_hd c xs)"
  by (cases xs) auto

lemma split_on_upper: "split_on is_sep (upper s) = map upper (split_on is_sep s)"
proof (induction s)
  case Nil
  show ?case by (simp add: upper_def)
next
  case (Cons c s)
  have "cons_hd (upper_char c) (map (map upper_char) (split_on is_sep s))
        = map (map upper_char) (cons_hd c (split_on is_sep s))"
    by (rule cons_hd_map) (rule split_on_ne)
  with Cons show ?case
    by (simp add: upper_def is_sep_upper_char del: cons_hd.simps)
qed

lemma filter_ne_upper: "filter (\<lambda>x. x \<noteq> []) (map upper xs) = map upper (filter (\<lambda>x. x \<noteq> []) xs)"
  by (induction xs) (auto simp: upper_def)

lemma upper_append: "upper (a @ b) = upper a @ upper b"
  by (simp add: upper_def)

lemma upper_Cons: "upper (c # s) = upper_char c # upper s"
  by (simp add: upper_def)

lemma upper_char_underscore: "upper_char (CHR ''_'') = CHR ''_''"
  by (simp add: upper_char_def lowers_def uppers_def)

lemma join_upper: "join ''_'' (map upper xs) = upper (join ''_'' xs)"
proof (induction xs)
  case Nil
  show ?case by (simp add: upper_def)
next
  case (Cons x xs)
  then show ?case
    by (cases xs) (simp_all add: upper_append upper_Cons upper_char_underscore)
qed

lemma re_sub_scan_inside: "CHR 0x0A \<notin> set s \<Longrightarrow> re_sub_scan True s = []"
  by (induction s) auto

lemma re_sub_scan_delete: "CHR 0x0A \<notin> set s \<Longrightarrow> re_sub_scan False s = delete_suffix s"
  by (induction s) (auto simp: re_sub_scan_inside)


lemma normname_spec:
  assumes "CHR 0x0A \<notin> set (fst (splitext (snd (posixpath_split orig))))"
  shows "normname orig = spec_normalize orig"
  using assms
  by (simp add: normname_def spec_normalize_def re_sub_def re_sub_scan_delete
      split_on_upper filter_ne_upper join_upper)

text \<open>
  Claim C4, amended.  For every non-empty file name whose base name without extension has
  no line feed, \<open>get_flow_id\<close> is the normalization the specification words: strip
  directory and extension, delete the suffix that starts at the first 8-digit date, 6-digit
  date with underscore, \<open>WE\<close> or \<open>D\<close> tag with 6 digits (letters in either case), split
  on spaces, dots and underscores, drop empty tokens, join with underscores, upper-case;
  a blank result raises.  \<open>SALES_20230501_extract.csv\<close> gives \<open>SALES\<close>, and \<open>a.b c_d\<close>
  gives \<open>A\<close>, since \<open>.b c_d\<close> is its extension.
\<close>

theorem get_flow_id_normalizes:
  "(orig \<noteq> [] \<and> CHR 0x0A \<notin> set (fst (splitext (snd (posixpath_split orig)))) \<longrightarrow>
      get_flow_id (Some orig) =
        (if spec_normalize orig = [] then Inl (Exception (error_msg orig []))
         else Inr (Some (spec_normalize orig))))
   \<and> get_flow_id (Some ''SALES_20230501_extract.csv'') = Inr (Some ''SALES'')
   \<and> get_flow_id (Some ''a.b c_d'') = Inr (Some ''A'')"
proof (intro conjI impI)
  assume "orig \<noteq> [] \<and> CHR 0x0A \<notin> set (fst (splitext (snd (posixpath_split orig))))"
  then show "get_flow_id (Some orig) =
        (if spec_normalize orig = [] then Inl (Exception (error_msg orig []))
         else Inr (Some (spec_normalize orig)))"
    by (simp add: get_flow_id_def normname_spec)
next
  show "get_flow_id (Some ''SALES_20230501_extract.csv'') = Inr (Some ''SALES'')"
    by code_simp
next
  show "get_flow_id (Some ''a.b c_d'') = Inr (Some ''A'')"
    by code_simp
qed

theorem get_flow_id_normalizes_witness:
  "get_flow_id (Some ''/in/foo.bar_WE230501.dat'') = Inr (Some ''FOO_BAR'')"
proof -
  have "spec_normalize ''/in/foo.bar_WE230501.dat'' = ''FOO_BAR''"
    by code_simp
  moreover have "CHR 0x0A \<notin> set (fst (splitext (snd (posixpath_split ''/in/foo.bar_WE230501.dat''))))"
    by code_simp
  ultimately show ?thesis
    using get_flow_id_normalizes [of "''/in/foo.bar_WE230501.dat''"] by simp
qed

text \<open>Claim C4 as stated has \<open>a.b c_d\<close> normalize to \<open>A_B_C_D\<close>; the code returns \<open>A\<close>.\<close>

theorem get_flow_id_example_counterexample:
  "get_flow_id (Some ''a.b c_d'') \<noteq> Inr (Some ''A_B_C_D'')"
  by code_simp

text \<open>
  Claim C5.  For a non-empty file name whose normalization is blank, \<open>get_flow_id\<close> raises
  an exception whose message contains the original file name; and whenever \<open>get_flow_id\<close>
  returns on a non-empty file name, it returns a non-empty flow ID.
\<close>

theorem get_flow_id_never_blank:
  assumes "orig \<noteq> []"
  shows "(normname orig = [] \<longrightarrow>
            get_flow_id (Some orig) = Inl (Exception (error_msg orig []))
            \<and> sublist orig (error_msg orig []))
         \<and> (\<forall>r. get_flow_id (Some orig) = Inr r \<longrightarrow> (\<exists>s. r = Some s \<and> s \<noteq> []))"
proof (intro conjI impI allI)
  assume "normname orig = []"
  with assms show "get_flow_id (Some orig) = Inl (Exception (error_msg orig []))"
    by (simp add: get_flow_id_def)
next
  show "sublist orig (error_msg orig [])"
    unfolding error_msg_def by (rule sublist_quoted_1)
next
  fix r assume "get_flow_id (Some orig) = Inr r"
  with assms show "\<exists>s. r = Some s \<and> s \<noteq> []"
    by (auto simp: get_flow_id_def split: if_splits)
qed

theorem get_flow_id_never_blank_witness:
  "get_flow_id (Some ''20230501_x.csv'') = Inl (Exception (error_msg ''20230501_x.csv'' []))
   \<and> sublist ''20230501_x.csv'' (error_msg ''20230501_x.csv'' [])
   \<and> (\<exists>s. Inr (Some ''A'') = (Inr (Some s) :: error + string option) \<and> s \<noteq> [])"
proof -
  have n: "normname ''20230501_x.csv'' = []"
    by code_simp
  have g: "get_flow_id (Some ''a.csv'') = Inr (Some ''A'')"
    by code_simp
  have ne: "''20230501_x.csv'' \<noteq> []" "''a.csv'' \<noteq> []"
    by simp_all
  from get_flow_id_never_blank [OF ne(1)] n get_flow_id_never_blank [OF ne(2)] g
  show ?thesis by simp
qed

section \<open>Namespace loading\<close>

lemma get_configs_loop_optional:
  "\<exists>d. get_configs_loop env False acc nss = Inr d
       \<and> (distinct (map fst acc) \<longrightarrow> distinct (map fst d))
       \<and> (\<forall>k. map_of d k =
             (if k \<in> upper ` set nss
              then (case ConfigFile_new env (make_conf_path env k) (Some False) of
                      Some cf \<Rightarrow> Some cf | None \<Rightarrow> map_of acc k)
              else map_of acc k))"
proof (induction nss arbitrary: acc)
  case Nil
  show ?case by simp
next
  case (Cons n nss)
  show ?case
  proof (cases "ConfigFile_new env (make_conf_path env (upper n)) (Some False)")
    case None
    from Cons.IH [of acc] obtain d where
      d: "get_configs_loop env False acc nss = Inr d"
      and dd: "distinct (map fst acc) \<longrightarrow> distinct (map fst d)"
      and dm: "\<And>k. map_of d k =
             (if k \<in> upper ` set nss
              then (case ConfigFile_new env (make_conf_path env k) (Some False) of
                      Some cf \<Rightarrow> Some cf | None \<Rightarrow> map_of acc k)
              else map_of acc k)"
      by blast
    have "get_configs_loop env False acc (n # nss) = Inr d"
      using None d by (simp add: Let_def)
    moreover have "map_of d k =
             (if k \<in> upper ` set (n # nss)
              then (case ConfigFile_new env (make_conf_path env k) (Some False) of
                      Some cf \<Rightarrow> Some cf | None \<Rightarrow> map_of acc k)
              else map_of acc k)" for k
      using None by (cases "k = upper n") (simp_all add: dm)
    ultimately show ?thesis using dd by blast
  next
    case (Some cf)
    from Cons.IH [of "dict_set (upper n) cf acc"] obtain d where
      d: "get_configs_loop env False (dict_set (upper n) cf acc) nss = Inr d"
      and dd: "distinct (map fst (dict_set (upper n) cf acc)) \<longrightarrow> distinct (map fst d)"
      and dm: "\<And>k. map_of d k =
             (if k \<in> upper ` set nss
              then (case ConfigFile_new env (make_conf_path env k) (Some False) of
                      Some cf \<Rightarrow> Some cf | None \<Rightarrow> map_of (dict_set (upper n) cf acc) k)
              else map_of (dict_set (upper n) cf acc) k)"
      by blast
    have "get_configs_loop env False acc (n # nss) = Inr d"
      using Some d by (simp add: Let_def)
    moreover have "distinct (map fst acc) \<longrightarrow> distinct (map fst d)"
      using dd distinct_dict_set [of acc "upper n" cf] by simp
    moreover have "map_of d k =
             (if k \<in> upper ` set (n # nss)
              then (case ConfigFile_new env (make_conf_path env k) (Some False) of
                      Some cf \<Rightarrow> Some cf | None \<Rightarrow> map_of acc k)
              else map_of acc k)" for k
      using Some by (cases "k = upper n") (simp_all add: dm map_of_dict_set split: option.splits)
    ultimately show ?thesis by blast
  qed
qed

lemma get_configs_loop_required_ok:
  "\<forall>n \<in> set nss. loads env True n \<Longrightarrow>
   \<exists>d. get_configs_loop env True acc nss = Inr d
       \<and> (\<forall>k. map_of d k =
             (if k \<in> upper ` set nss then ConfigFile_new env (make_conf_path env k) (Some True)
              else map_of acc k))"
proof (induction nss arbitrary: acc)
  case Nil
  show ?case by simp
next
  case (Cons n nss)
  then obtain cf where cf: "ConfigFile_new env (make_conf_path env (upper n)) (Some True) = Some cf"
    by (auto simp: loads_def)
  from Cons have "\<forall>n \<in> set nss. loads env True n" by simp
  from Cons.IH [OF this, of "dict_set (upper n) cf acc"] obtain d where
    d: "get_configs_loop env True (dict_set (upper n) cf acc) nss = Inr d"
    and dm: "\<forall>k. map_of d k =
             (if k \<in> upper ` set nss then ConfigFile_new env (make_conf_path env k) (Some True)
              else map_of (dict_set (upper n) cf acc) k)"
    by blast
  have "get_configs_loop env True acc (n # nss) = Inr d"
    using cf d by (simp add: Let_def)
  moreover have "\<forall>k. map_of d k =
             (if k \<in> upper ` set (n # nss) then ConfigFile_new env (make_conf_path env k) (Some True)
              else map_of acc k)"
    using dm cf by (auto simp: map_of_dict_set)
  ultimately show ?case by blast
qed

lemma get_configs_loop_required_fails:
  "\<forall>m \<in> set pre. loads env True m \<Longrightarrow> \<not> loads env True n \<Longrightarrow>
   get_configs_loop env True acc (pre @ n # post)
     = Inl (ConfigNotFound (load_err_msg (upper n) (make_conf_path env (upper n))))"
proof (induction pre arbitrary: acc)
  case Nil
  then show ?case by (simp add: loads_def Let_def)
next
  case (Cons m pre)
  then obtain cf where "ConfigFile_new env (make_conf_path env (upper m)) (Some True) = Some cf"
    by (auto simp: loads_def)
  with Cons show ?case by (simp add: Let_def)
qed

text \<open>
  Claim C6.  With \<open>required = True\<close>, \<open>get_configs\<close> raises \<open>ConfigNotFound\<close> at the first
  namespace that fails to load, the message naming the upper-cased namespace and its path,
  and the construction of a \<open>ConfigManager\<close> fails with the same error; it returns only
  when every namespace loaded.  With \<open>required = False\<close> it always returns, and the result
  maps exactly the upper-cased names of the namespaces that loaded to their sources.
\<close>

theorem get_configs_all_or_nothing:
  "(\<forall>pre n post. namespaces = pre @ n # post \<and> list_all (loads env True) pre \<and> \<not> loads env True n \<longrightarrow>
      get_configs env namespaces True
        = Inl (ConfigNotFound (load_err_msg (upper n) (make_conf_path env (upper n))))
      \<and> sublist (upper n) (load_err_msg (upper n) (make_conf_path env (upper n)))
      \<and> sublist (make_conf_path env (upper n)) (load_err_msg (upper n) (make_conf_path env (upper n)))
      \<and> init env pop namespaces flow filename
        = Inl (ConfigNotFound (load_err_msg (upper n) (make_conf_path env (upper n)))))
   \<and> (\<forall>d. get_configs env namespaces True = Inr d \<longrightarrow> list_all (loads env True) namespaces)
   \<and> (list_all (loads env True) namespaces \<longrightarrow>
        (\<exists>d. get_configs env namespaces True = Inr d
           \<and> (\<forall>k. map_of d k =
                 (if k \<in> upper ` set namespaces
                  then ConfigFile_new env (make_conf_path env k) (Some True) else None))))
   \<and> (\<exists>d. get_configs env namespaces False = Inr d
          \<and> distinct (map fst d)
          \<and> (\<forall>k. map_of d k =
                (if k \<in> upper ` set namespaces
                 then ConfigFile_new env (make_conf_path env k) (Some False)
                 else None)))"
proof (intro conjI allI impI)
  fix pre n post
  assume a: "namespaces = pre @ n # post \<and> list_all (loads env True) pre \<and> \<not> loads env True n"
  then have pre: "\<forall>m \<in> set pre. loads env True m" and n: "\<not> loads env True n"
    by (simp_all add: list_all_iff)
  from get_configs_loop_required_fails [OF pre n] a
  show g: "get_configs env namespaces True
        = Inl (ConfigNotFound (load_err_msg (upper n) (make_conf_path env (upper n))))"
    by (simp add: get_configs_def)
  then show "init env pop namespaces flow filename
        = Inl (ConfigNotFound (load_err_msg (upper n) (make_conf_path env (upper n))))"
    by (simp add: init_def)
  show "sublist (upper n) (load_err_msg (upper n) (make_conf_path env (upper n)))"
    unfolding load_err_msg_def by (rule sublist_quoted_1)
  show "sublist (make_conf_path env (upper n)) (load_err_msg (upper n) (make_conf_path env (upper n)))"
    unfolding load_err_msg_def by (rule sublist_quoted_2)
next
  fix d assume d: "get_configs env namespaces True = Inr d"
  show "list_all (loads env True) namespaces"
  proof (rule ccontr)
    assume "\<not> list_all (loads env True) namespaces"
    then have "\<exists>n \<in> set namespaces. \<not> loads env True n"
      by (simp add: list_all_iff)
    then obtain pre n post where
      "namespaces = pre @ n # post" "\<not> loads env True n" "\<forall>m \<in> set pre. loads env True m"
      using split_list_first_prop [of namespaces "\<lambda>n. \<not> loads env True n"] by blast
    with get_configs_loop_required_fails [of pre env n "[]" post] d show False
      by (simp add: get_configs_def)
  qed
next
  assume "list_all (loads env True) namespaces"
  then have "\<forall>n \<in> set namespaces. loads env True n"
    by (simp add: list_all_iff)
  from get_configs_loop_required_ok [OF this, of "[]"] obtain d where
    "get_configs_loop env True [] namespaces = Inr d"
    "\<And>k. map_of d k =
       (if k \<in> upper ` set namespaces
        then ConfigFile_new env (make_conf_path env k) (Some True) else map_of [] k)"
    by blast
  then show "\<exists>d. get_configs env namespaces True = Inr d
           \<and> (\<forall>k. map_of d k =
                 (if k \<in> upper ` set namespaces
                  then ConfigFile_new env (make_conf_path env k) (Some True) else None))"
    unfolding get_configs_def by simp
next
  from get_configs_loop_optional [of env "[]" namespaces] obtain d where
    d: "get_configs_loop env False [] namespaces = Inr d"
    and dd: "distinct (map fst d)"
    and dm: "\<And>k. map_of d k =
             (if k \<in> upper ` set namespaces
              then (case ConfigFile_new env (make_conf_path env k) (Some False) of
                      Some cf \<Rightarrow> Some cf | None \<Rightarrow> map_of [] k)
              else map_of [] k)"
    by auto
  have "map_of d k =
          (if k \<in> upper ` set namespaces
           then ConfigFile_new env (make_conf_path env k) (Some False) else None)" for k
    by (simp add: dm split: option.splits)
  with d dd
  show "\<exists>d. get_configs env namespaces False = Inr d
          \<and> distinct (map fst d)
          \<and> (\<forall>k. map_of d k =
                (if k \<in> upper ` set namespaces
                 then ConfigFile_new env (make_conf_path env k) (Some False)
                 else None))"
    unfolding get_configs_def by blast
qed


lemmas store_defs =
  env_ab_def store_of_def srcA_def srcB_def simple_source_def full_source_def
  make_conf_path_def CM_PATH_def os_path_join_def loads_def

theorem get_configs_all_or_nothing_witness:
  "get_configs env_ab [''cm_fsd_b'', ''CM_FSD_C'', ''CM_FSD_A''] True
     = Inl (ConfigNotFound (load_err_msg ''CM_FSD_C'' ''/datalakebin/dev/fsd/consumption/conf/CM_FSD_C.prm''))
   \<and> init env_ab hd [''cm_fsd_b'', ''CM_FSD_C'', ''CM_FSD_A''] None None
     = Inl (ConfigNotFound (load_err_msg ''CM_FSD_C'' ''/datalakebin/dev/fsd/consumption/conf/CM_FSD_C.prm''))
   \<and> (\<exists>d. get_configs env_ab [''cm_fsd_b'', ''CM_FSD_C'', ''CM_FSD_A''] False = Inr d
         \<and> map_of d ''CM_FSD_B'' = Some srcB \<and> map_of d ''CM_FSD_C'' = None
         \<and> map_of d ''cm_fsd_b'' = None)"
proof -
  let ?nss = "[''cm_fsd_b'', ''CM_FSD_C'', ''CM_FSD_A'']"
  note t = get_configs_all_or_nothing [of ?nss env_ab hd None None]
  have u: "upper ''CM_FSD_C'' = ''CM_FSD_C''" by code_simp
  have ub: "upper ''cm_fsd_b'' = ''CM_FSD_B''" by code_simp
  have b: "list_all (loads env_ab True) [''cm_fsd_b'']" by (simp add: store_defs ub)
  have c: "\<not> loads env_ab True ''CM_FSD_C''" by (simp add: store_defs u)
  have p: "make_conf_path env_ab ''CM_FSD_C'' = ''/datalakebin/dev/fsd/consumption/conf/CM_FSD_C.prm''"
    by (simp add: store_defs)
  have s: "?nss = [''cm_fsd_b''] @ ''CM_FSD_C'' # [''CM_FSD_A'']" by simp
  from t s b c have 1: "get_configs env_ab ?nss True
     = Inl (ConfigNotFound (load_err_msg (upper ''CM_FSD_C'') (make_conf_path env_ab (upper ''CM_FSD_C''))))"
    by blast
  from t s b c have 2: "init env_ab hd ?nss None None
     = Inl (ConfigNotFound (load_err_msg (upper ''CM_FSD_C'') (make_conf_path env_ab (upper ''CM_FSD_C''))))"
    by blast
  from t obtain d where d: "get_configs env_ab ?nss False = Inr d"
    and dm: "\<And>k. map_of d k =
                (if k \<in> upper ` set ?nss
                 then ConfigFile_new env_ab (make_conf_path env_ab k) (Some False)
                 else None)"
    by blast
  have ua: "upper ''CM_FSD_A'' = ''CM_FSD_A''" by code_simp
  have lb: "ConfigFile_new env_ab (make_conf_path env_ab ''CM_FSD_B'') (Some False) = Some srcB"
    by (simp add: store_defs)
  have lc: "ConfigFile_new env_ab (make_conf_path env_ab ''CM_FSD_C'') (Some False) = None"
    by (simp add: store_defs)
  have "map_of d ''CM_FSD_B'' = Some srcB" "map_of d ''CM_FSD_C'' = None" "map_of d ''cm_fsd_b'' = None"
    by (simp_all add: dm ub u ua lb lc)
  with d 1 2 show ?thesis
    by (simp add: u p)
qed

section \<open>Flow resolution\<close>

lemma CM_FLOW_MASK_eq: "CM_FLOW_MASK = ''CM_FSD_FLOW_*.prm''"
  by code_simp

lemma CM_GEN_MASK_eq: "CM_GEN_MASK = ''CM_FSD_FLOW_GEN_*.prm''"
  by code_simp

lemma str_replace_star: "str_replace ''*'' x ''CM_FSD_FLOW_*.prm'' = ''CM_FSD_FLOW_'' @ x @ ''.prm''"
  by (simp add: str_replace.simps)

lemma str_replace_step:
  "old \<noteq> [] \<Longrightarrow> \<not> prefix old (c # s) \<Longrightarrow>
   str_replace old new (c # s) = c # str_replace old new s"
  by (subst str_replace.simps) simp

lemma str_replace_prm:
  "CHR ''p'' \<notin> set t \<Longrightarrow> str_replace ''.prm'' [] (t @ ''.prm'') = t"
proof (induction t)
  case Nil
  show ?case by (simp add: str_replace.simps)
next
  case (Cons c t)
  have np: "\<not> prefix ''.prm'' (c # (t @ ''.prm''))"
    using Cons.prems by (cases t) auto
  have "str_replace ''.prm'' [] (c # (t @ ''.prm'')) = c # str_replace ''.prm'' [] (t @ ''.prm'')"
    by (rule str_replace_step [OF _ np]) simp
  with Cons show ?case by simp
qed

lemma upper_char_not_p: "upper_char c \<noteq> CHR ''p''"
  by (auto simp: upper_char_def lowers_def uppers_def)

lemma upper_char_idem: "upper_char (upper_char c) = upper_char c"
  by (auto simp: upper_char_def lowers_def uppers_def)

lemma upper_idem: "upper (upper s) = upper s"
  by (simp add: upper_def upper_char_idem)

lemma flow_namespace_eq: "flow_namespace (upper f) = dedicated_namespace f"
proof -
  have "CHR ''p'' \<notin> set (upper f)"
    using upper_char_not_p by (fastforce simp: upper_def)
  then have "CHR ''p'' \<notin> set (''CM_FSD_FLOW_'' @ upper f)"
    by simp
  from str_replace_prm [OF this] show ?thesis
    by (simp add: flow_namespace_def dedicated_namespace_def CM_FLOW_MASK_eq str_replace_star)
qed

lemma upper_namespace: "upper (dedicated_namespace f) = dedicated_namespace f"
proof -
  have lit: "upper ''CM_FSD_FLOW_'' = ''CM_FSD_FLOW_''" by code_simp
  have "upper (''CM_FSD_FLOW_'' @ upper f) = upper ''CM_FSD_FLOW_'' @ upper (upper f)"
    by (rule upper_append)
  also have "\<dots> = ''CM_FSD_FLOW_'' @ upper f"
    by (simp only: lit upper_idem)
  finally show ?thesis by (simp only: dedicated_namespace_def)
qed

lemma fnmatch_Nil: "fnmatch s [] = (s = [])"
  by (cases s) simp_all

lemma fnmatch_literal:
  "p \<noteq> CHR ''*'' \<Longrightarrow> p \<noteq> CHR ''?'' \<Longrightarrow> fnmatch s (p # ps) = (\<exists>s'. s = p # s' \<and> fnmatch s' ps)"
  by (cases s) auto

lemma fnmatch_star: "fnmatch s (CHR ''*'' # ps) = (\<exists>t. suffix t s \<and> fnmatch t ps)"
proof (induction s)
  case Nil
  show ?case by simp
next
  case (Cons c cs)
  have "fnmatch (c # cs) (CHR ''*'' # ps) = (fnmatch (c # cs) ps \<or> fnmatch cs (CHR ''*'' # ps))"
    by simp
  also have "\<dots> = (fnmatch (c # cs) ps \<or> (\<exists>t. suffix t cs \<and> fnmatch t ps))"
    by (simp only: Cons.IH)
  also have "\<dots> = (\<exists>t. suffix t (c # cs) \<and> fnmatch t ps)"
    by (auto simp: suffix_Cons)
  finally show ?case .
qed

lemma fnmatch_prm: "fnmatch t ''.prm'' = (t = ''.prm'')"
  by (auto simp: fnmatch_literal fnmatch_Nil)

lemma fnmatch_literals:
  "CHR ''*'' \<notin> set lit \<Longrightarrow> CHR ''?'' \<notin> set lit \<Longrightarrow>
   fnmatch s (lit @ ps) = (\<exists>r. s = lit @ r \<and> fnmatch r ps)"
proof (induction lit arbitrary: s)
  case Nil
  show ?case by simp
next
  case (Cons c lit)
  then have c: "c \<noteq> CHR ''*''" "c \<noteq> CHR ''?''"
    and ih: "\<And>s'. fnmatch s' (lit @ ps) = (\<exists>r. s' = lit @ r \<and> fnmatch r ps)"
    by auto
  have "fnmatch s ((c # lit) @ ps) = (\<exists>s'. s = c # s' \<and> fnmatch s' (lit @ ps))"
    using fnmatch_literal [OF c] by simp
  also have "\<dots> = (\<exists>s'. s = c # s' \<and> (\<exists>r. s' = lit @ r \<and> fnmatch r ps))"
    by (simp only: ih)
  also have "\<dots> = (\<exists>r. s = (c # lit) @ r \<and> fnmatch r ps)"
    by auto
  finally show ?case .
qed

lemma fnmatch_gen_mask: "fnmatch n CM_GEN_MASK = is_generic_name n"
proof -
  have m: "CM_GEN_MASK = ''CM_FSD_FLOW_GEN_'' @ ''*.prm''"
    by (simp add: CM_GEN_MASK_eq)
  have "fnmatch n (''CM_FSD_FLOW_GEN_'' @ ''*.prm'')
        = (\<exists>r. n = ''CM_FSD_FLOW_GEN_'' @ r \<and> fnmatch r ''*.prm'')"
    by (rule fnmatch_literals) simp_all
  also have "\<dots> = (\<exists>r. n = ''CM_FSD_FLOW_GEN_'' @ r \<and> suffix ''.prm'' r)"
    by (simp only: fnmatch_star fnmatch_prm) auto
  also have "\<dots> = is_generic_name n"
    unfolding is_generic_name_def prefix_def by auto
  finally show ?thesis by (simp only: m)
qed

lemma is_space_upper_char: "is_space (upper_char c) = is_space c"
  by (auto simp: upper_char_def is_space_def lowers_def uppers_def)

lemma dropWhile_space_upper: "dropWhile is_space (upper s) = upper (dropWhile is_space s)"
  by (induction s) (simp_all add: upper_def is_space_upper_char)

lemma strip_upper: "strip (upper s) = upper (strip s)"
proof -
  have r: "rev (upper t) = upper (rev t)" for t
    by (simp add: upper_def rev_map)
  show ?thesis
    by (simp only: strip_def dropWhile_space_upper r)
qed

lemma genconf_filter_lists_flow: "genconf_filter (upper flow_id) cfg = lists_flow flow_id cfg"
  by (simp add: genconf_filter_def lists_flow_def strip_upper)

lemma generic_candidates_eq:
  "list_configs env (list_config_files env CM_GEN_MASK) = generic_candidates env"
proof -
  have "List.map_filter g (filter P fs)
        = concat (map (\<lambda>f. if P f then (case g f of Some cf \<Rightarrow> [cf] | None \<Rightarrow> []) else []) fs)"
    for g :: "LocalFile \<Rightarrow> ConfigFile option" and P fs
    by (induction fs) (simp_all add: List.map_filter_simps split: option.splits)
  then show ?thesis
    by (simp add: list_configs_def list_config_files_def generic_candidates_def fnmatch_gen_mask)
qed

lemma sublist_inside: "sublist x y \<Longrightarrow> sublist x (a @ y @ b)"
proof -
  assume "sublist x y"
  then obtain ps ss where "y = ps @ x @ ss"
    by (auto simp: sublist_def)
  then have "a @ y @ b = (a @ ps) @ x @ (ss @ b)"
    by simp
  then show ?thesis
    by (simp only: sublist_appendI)
qed

lemma sublist_join: "x \<in> set xs \<Longrightarrow> sublist x (join sep xs)"
proof (induction sep xs rule: join.induct)
  case (1 sep)
  then show ?case by simp
next
  case (2 sep y)
  then show ?case by simp
next
  case (3 sep y z zs)
  show ?case
  proof (cases "x = y")
    case True
    then show ?thesis by simp
  next
    case False
    with 3 have "sublist x (join sep (z # zs))" by simp
    from sublist_inside [OF this, of "y @ sep" "[]"] show ?thesis by simp
  qed
qed

lemma ambiguous_msg_names:
  "cfg \<in> set cs \<Longrightarrow> sublist (fpath (cfile cfg)) (ambiguous_msg f cs)"
proof -
  assume "cfg \<in> set cs"
  then have "fpath (cfile cfg) \<in> set (map (\<lambda>cfg. fpath (cfile cfg)) cs)"
    by simp
  then have "sublist (fpath (cfile cfg)) (join '','' (map (\<lambda>cfg. fpath (cfile cfg)) cs))"
    by (rule sublist_join)
  from sublist_inside [OF this] show ?thesis
    unfolding ambiguous_msg_def
    by (metis append.assoc)
qed

lemma get_configs_single:
  "get_configs env [dedicated_namespace f] False =
     (case ConfigFile_new env (make_conf_path env (dedicated_namespace f)) (Some False) of
        Some cf \<Rightarrow> Inr [(dedicated_namespace f, cf)]
      | None \<Rightarrow> Inr [])"
  by (simp add: get_configs_def upper_namespace Let_def split: option.splits)

lemma get_config_by_flow_cases:
  "get_config_by_flow env flow_id =
     (case ConfigFile_new env (make_conf_path env (dedicated_namespace flow_id)) (Some False) of
        Some cf \<Rightarrow> Inr cf
      | None \<Rightarrow>
          (case filter (lists_flow flow_id) (generic_candidates env) of
             [cfg] \<Rightarrow> Inr cfg
           | [] \<Rightarrow> Inl (ConfigNotFound (not_found_msg (upper flow_id)))
           | cfg # cfg' # cfgs \<Rightarrow>
               Inl (ConfigError (ambiguous_msg (upper flow_id) (cfg # cfg' # cfgs)))))"
proof -
  have f: "genconf_filter (upper flow_id) = lists_flow flow_id"
    by (rule ext) (rule genconf_filter_lists_flow)
  show ?thesis
    by (simp add: get_config_by_flow_def flow_namespace_eq get_configs_single
        generic_candidates_eq f Let_def split: option.splits)
qed

lemma generic_candidates_skip:
  assumes "iter_contents env = pre @ f # post" and "ConfigFile_new env (fpath f) None = None"
  shows "generic_candidates (env\<lparr>iter_contents := pre @ post\<rparr>) = generic_candidates env"
  using assms by (simp add: generic_candidates_def cong: if_cong)

text \<open>
  Claim C1.  \<open>get_config_by_flow\<close> first loads, not required, the dedicated namespace
  \<open>CM_FSD_FLOW_<FLOWID>\<close> and returns that source when the load gives one.  Otherwise the
  generic candidates that list the flow decide: exactly one is returned, none raises
  \<open>ConfigNotFound\<close>, several raise \<open>ConfigError\<close> with a message that contains the path
  of each of them.  A generic file that does not parse is no candidate: removing it from
  the directory changes nothing.
\<close>

theorem get_config_by_flow_resolves:
  "(\<forall>cf. ConfigFile_new env (make_conf_path env (dedicated_namespace flow_id)) (Some False) = Some cf
        \<longrightarrow> get_config_by_flow env flow_id = Inr cf)
   \<and> (ConfigFile_new env (make_conf_path env (dedicated_namespace flow_id)) (Some False) = None \<longrightarrow>
        (\<forall>cfg. filter (lists_flow flow_id) (generic_candidates env) = [cfg]
           \<longrightarrow> get_config_by_flow env flow_id = Inr cfg)
        \<and> (filter (lists_flow flow_id) (generic_candidates env) = []
           \<longrightarrow> get_config_by_flow env flow_id = Inl (ConfigNotFound (not_found_msg (upper flow_id))))
        \<and> (1 < length (filter (lists_flow flow_id) (generic_candidates env)) \<longrightarrow>
             get_config_by_flow env flow_id
               = Inl (ConfigError (ambiguous_msg (upper flow_id)
                       (filter (lists_flow flow_id) (generic_candidates env))))
             \<and> (\<forall>cfg \<in> set (filter (lists_flow flow_id) (generic_candidates env)).
                   sublist (fpath (cfile cfg))
                     (ambiguous_msg (upper flow_id)
                        (filter (lists_flow flow_id) (generic_candidates env))))))
   \<and> (\<forall>pre f post. iter_contents env = pre @ f # post \<and> ConfigFile_new env (fpath f) None = None
        \<longrightarrow> get_config_by_flow (env\<lparr>iter_contents := pre @ post\<rparr>) flow_id
            = get_config_by_flow env flow_id)"
proof (intro conjI allI impI ballI)
  fix cf
  assume "ConfigFile_new env (make_conf_path env (dedicated_namespace flow_id)) (Some False) = Some cf"
  then show "get_config_by_flow env flow_id = Inr cf"
    by (simp add: get_config_by_flow_cases)
next
  fix cfg
  assume "ConfigFile_new env (make_conf_path env (dedicated_namespace flow_id)) (Some False) = None"
    and "filter (lists_flow flow_id) (generic_candidates env) = [cfg]"
  then show "get_config_by_flow env flow_id = Inr cfg"
    by (simp add: get_config_by_flow_cases)
next
  assume "ConfigFile_new env (make_conf_path env (dedicated_namespace flow_id)) (Some False) = None"
    and "filter (lists_flow flow_id) (generic_candidates env) = []"
  then show "get_config_by_flow env flow_id = Inl (ConfigNotFound (not_found_msg (upper flow_id)))"
    by (simp add: get_config_by_flow_cases)
next
  assume n: "ConfigFile_new env (make_conf_path env (dedicated_namespace flow_id)) (Some False) = None"
    and "1 < length (filter (lists_flow flow_id) (generic_candidates env))"
  then obtain c r where "filter (lists_flow flow_id) (generic_candidates env) = c # r" "r \<noteq> []"
    by (cases "filter (lists_flow flow_id) (generic_candidates env)") auto
  then obtain c' cs where "filter (lists_flow flow_id) (generic_candidates env) = c # c' # cs"
    by (cases r) auto
  with n show "get_config_by_flow env flow_id
               = Inl (ConfigError (ambiguous_msg (upper flow_id)
                       (filter (lists_flow flow_id) (generic_candidates env))))"
    by (simp add: get_config_by_flow_cases)
next
  fix cfg
  assume "cfg \<in> set (filter (lists_flow flow_id) (generic_candidates env))"
  then show "sublist (fpath (cfile cfg))
                     (ambiguous_msg (upper flow_id)
                        (filter (lists_flow flow_id) (generic_candidates env)))"
    by (rule ambiguous_msg_names)
next
  fix pre f post
  assume a: "iter_contents env = pre @ f # post \<and> ConfigFile_new env (fpath f) None = None"
  then have "generic_candidates (env\<lparr>iter_contents := pre @ post\<rparr>) = generic_candidates env"
    by (simp add: generic_candidates_skip)
  moreover have "make_conf_path (env\<lparr>iter_contents := pre @ post\<rparr>) = make_conf_path env"
    by (rule ext) (simp add: make_conf_path_def CM_PATH_def)
  ultimately show "get_config_by_flow (env\<lparr>iter_contents := pre @ post\<rparr>) flow_id
            = get_config_by_flow env flow_id"
    by (simp add: get_config_by_flow_cases cong: option.case_cong)
qed


lemmas flow_store_defs =
  env_flow_def store_of_def srcA_def srcB_def gen1_def gen2_def ded_def
  simple_source_def full_source_def make_conf_path_def CM_PATH_def os_path_join_def

lemma candidates_env_flow: "generic_candidates env_flow = [gen1, gen2]"
  by (simp add: generic_candidates_def is_generic_name_def posixpath_split_def
      rfind_slash_tail_def flow_store_defs suffix_to_prefix)

lemma lists_flow_examples:
  "lists_flow ''myflow'' gen1" "\<not> lists_flow ''myflow'' gen2"
  "lists_flow ''flowa'' gen1" "lists_flow ''flowa'' gen2"
  "\<not> lists_flow ''flowb'' gen1" "\<not> lists_flow ''flowb'' gen2"
  by (simp_all add: lists_flow_def gen1_def gen2_def full_source_def upper_def upper_char_def
      lowers_def uppers_def strip_def is_space_def)

lemma dedicated_examples:
  "ConfigFile_new env_flow (make_conf_path env_flow (dedicated_namespace ''ded'')) (Some False) = Some ded"
  "ConfigFile_new env_flow (make_conf_path env_flow (dedicated_namespace ''myflow'')) (Some False) = None"
  "ConfigFile_new env_flow (make_conf_path env_flow (dedicated_namespace ''flowa'')) (Some False) = None"
  "ConfigFile_new env_flow (make_conf_path env_flow (dedicated_namespace ''flowb'')) (Some False) = None"
  by (simp_all add: dedicated_namespace_def flow_store_defs upper_def upper_char_def
      lowers_def uppers_def)

theorem get_config_by_flow_resolves_witness:
  "get_config_by_flow env_flow ''ded'' = Inr ded
   \<and> get_config_by_flow env_flow ''myflow'' = Inr gen1
   \<and> get_config_by_flow env_flow ''flowb'' = Inl (ConfigNotFound (not_found_msg ''FLOWB''))
   \<and> get_config_by_flow env_flow ''flowa'' = Inl (ConfigError (ambiguous_msg ''FLOWA'' [gen1, gen2]))
   \<and> sublist ''/datalakebin/dev/fsd/consumption/conf/CM_FSD_FLOW_GEN_ONE.prm''
        (ambiguous_msg ''FLOWA'' [gen1, gen2])
   \<and> sublist ''/datalakebin/dev/fsd/consumption/conf/CM_FSD_FLOW_GEN_TWO.prm''
        (ambiguous_msg ''FLOWA'' [gen1, gen2])"
proof -
  have u: "upper ''flowa'' = ''FLOWA''" "upper ''flowb'' = ''FLOWB''"
    by code_simp+
  have p: "fpath (cfile gen1) = ''/datalakebin/dev/fsd/consumption/conf/CM_FSD_FLOW_GEN_ONE.prm''"
    "fpath (cfile gen2) = ''/datalakebin/dev/fsd/consumption/conf/CM_FSD_FLOW_GEN_TWO.prm''"
    by (simp_all add: gen1_def gen2_def full_source_def)
  have 1: "get_config_by_flow env_flow ''ded'' = Inr ded"
    using get_config_by_flow_resolves [of env_flow "''ded''"] dedicated_examples(1) by blast
  have 2: "get_config_by_flow env_flow ''myflow'' = Inr gen1"
    using get_config_by_flow_resolves [of env_flow "''myflow''"] dedicated_examples(2)
    by (simp add: candidates_env_flow lists_flow_examples)
  have 3: "get_config_by_flow env_flow ''flowb'' = Inl (ConfigNotFound (not_found_msg ''FLOWB''))"
    using get_config_by_flow_resolves [of env_flow "''flowb''"] dedicated_examples(4)
    by (simp add: candidates_env_flow lists_flow_examples u)
  have 4: "get_config_by_flow env_flow ''flowa'' = Inl (ConfigError (ambiguous_msg ''FLOWA'' [gen1, gen2]))
     \<and> sublist (fpath (cfile gen1)) (ambiguous_msg ''FLOWA'' [gen1, gen2])
     \<and> sublist (fpath (cfile gen2)) (ambiguous_msg ''FLOWA'' [gen1, gen2])"
    using get_config_by_flow_resolves [of env_flow "''flowa''"] dedicated_examples(3)
    by (simp add: candidates_env_flow lists_flow_examples u)
  from 1 2 3 4 show ?thesis
    by (simp only: p)
qed

section \<open>Stacking\<close>

lemma ci_distinct_interim_dict: "distinct (map (\<lambda>e. lower_pair (fst e)) (interim_dict cf))"
  by (simp add: interim_dict_def ci_distinct_CaseInsensitiveDict)

lemma stacked_value_append:
  "stacked_value d (ns @ ms) q
     = (case stacked_value d ns q of Some v \<Rightarrow> Some v | None \<Rightarrow> stacked_value d ms q)"
  by (induction ns) (auto split: option.splits)

lemma process_configs_loop_lookup:
  "set ks \<subseteq> fst ` set d \<Longrightarrow>
   \<exists>r. process_configs_loop d acc ks = Inr r
      \<and> (\<forall>q. ci_get lower_pair r q
              = (case stacked_value d (rev ks) q of
                   Some v \<Rightarrow> Some v | None \<Rightarrow> ci_get lower_pair acc q))"
proof (induction ks arbitrary: acc)
  case Nil
  show ?case by simp
next
  case (Cons k ks)
  then have "k \<in> fst ` set d" by simp
  then obtain cf where cf: "map_of d k = Some cf"
    by (metis domD dom_map_of_conv_image_fst)
  from Cons have "set ks \<subseteq> fst ` set d" by simp
  from Cons.IH [OF this, of "ci_update lower_pair acc (interim_dict cf)"] obtain r where
    r: "process_configs_loop d (ci_update lower_pair acc (interim_dict cf)) ks = Inr r"
    and rq: "\<And>q. ci_get lower_pair r q
              = (case stacked_value d (rev ks) q of
                   Some v \<Rightarrow> Some v
                 | None \<Rightarrow> ci_get lower_pair (ci_update lower_pair acc (interim_dict cf)) q)"
    by blast
  have "process_configs_loop d acc (k # ks) = Inr r"
    using cf r by simp
  moreover have "ci_get lower_pair r q
              = (case stacked_value d (rev (k # ks)) q of
                   Some v \<Rightarrow> Some v | None \<Rightarrow> ci_get lower_pair acc q)" for q
    by (simp add: rq stacked_value_append cf ci_get_update_layer [OF ci_distinct_interim_dict]
        split: option.splits)
  ultimately show ?case by blast
qed


lemma process_configs_loop_cong:
  "map_of d' = map_of d \<Longrightarrow> process_configs_loop d' acc ks = process_configs_loop d acc ks"
  by (induction ks arbitrary: acc) (simp_all split: option.splits)

lemma stacked_value_first:
  assumes "b \<in> set ns" and "sorted (rev ns)"
    and "map_of d b = Some cfb" and "ci_get lower_pair (interim_dict cfb) q = Some vb"
    and "\<And>n cf. map_of d n = Some cf \<Longrightarrow> b < n \<Longrightarrow> ci_get lower_pair (interim_dict cf) q = None"
  shows "stacked_value d ns q = Some vb"
  using assms(1,2)
proof (induction ns)
  case Nil
  then show ?case by simp
next
  case (Cons n ns)
  show ?case
  proof (cases "n = b")
    case True
    with assms(3,4) show ?thesis by simp
  next
    case False
    with Cons.prems have b: "b \<in> set ns" by simp
    from Cons.prems have s: "sorted (rev ns)" and "\<forall>x \<in> set ns. x \<le> n"
      by (auto simp: sorted_append)
    with b False have "b < n" by auto
    then have "stacked_value d (n # ns) q = stacked_value d ns q"
      using assms(5) [of n] by (cases "map_of d n") simp_all
    with Cons.IH [OF b s] show ?thesis by simp
  qed
qed

lemma interim_dict_simple:
  "parsestyle cf = PARSE_SIMPLE \<Longrightarrow>
   interim_dict cf = CaseInsensitiveDict lower_pair
     (dict_of (map (\<lambda>(k, v). (([], k), v)) (simple_items cf)))"
  by (simp add: interim_dict_def)

lemma interim_dict_full:
  "parsestyle cf = PARSE_FULL \<Longrightarrow>
   interim_dict cf = CaseInsensitiveDict lower_pair
     (dict_of (map (\<lambda>((a, b), c). ((a, b), c)) (full_items cf)))"
  by (simp add: interim_dict_def)

lemma process_configs_lookup:
  "\<exists>r. process_configs d = Inr r
        \<and> (\<forall>q. ci_get lower_pair r q = stacked_value d (rev (sort (map fst d))) q)
        \<and> (\<forall>q b cfb vb.
              map_of d b = Some cfb \<and> ci_get lower_pair (interim_dict cfb) q = Some vb
              \<and> (\<forall>n cf. map_of d n = Some cf \<and> b < n
                    \<longrightarrow> ci_get lower_pair (interim_dict cf) q = None)
              \<longrightarrow> ci_get lower_pair r q = Some vb)"
proof -
  have "set (sort (map fst d)) \<subseteq> fst ` set d" by simp
  from process_configs_loop_lookup [OF this, of "[]"] obtain r where
    r0: "process_configs_loop d [] (sort (map fst d)) = Inr r"
    and rq0: "\<And>q. ci_get lower_pair r q
              = (case stacked_value d (rev (sort (map fst d))) q of
                   Some v \<Rightarrow> Some v | None \<Rightarrow> ci_get lower_pair [] q)"
    by blast
  from r0 have r: "process_configs d = Inr r"
    by (simp add: process_configs_def)
  have rq: "ci_get lower_pair r q = stacked_value d (rev (sort (map fst d))) q" for q
    by (simp add: rq0 split: option.splits)
  have "ci_get lower_pair r q = Some vb"
    if "map_of d b = Some cfb \<and> ci_get lower_pair (interim_dict cfb) q = Some vb
        \<and> (\<forall>n cf. map_of d n = Some cf \<and> b < n \<longrightarrow> ci_get lower_pair (interim_dict cf) q = None)"
    for q b cfb vb
  proof -
    from that have "b \<in> set (rev (sort (map fst d)))"
      by (auto dest: map_of_SomeD intro: rev_image_eqI)
    moreover have "sorted (rev (rev (sort (map fst d))))" by simp
    ultimately have "stacked_value d (rev (sort (map fst d))) q = Some vb"
      using that by (intro stacked_value_first [where b = b and cfb = cfb]) auto
    then show ?thesis by (simp add: rq)
  qed
  with r rq show ?thesis by blast
qed

lemma process_configs_order:
  "\<forall>d'. distinct (map fst d) \<and> distinct (map fst d') \<and> set d' = set d
          \<longrightarrow> process_configs d' = process_configs d"
proof (intro allI impI)
  fix d'
  assume a: "distinct (map fst d) \<and> distinct (map fst d') \<and> set d' = set d"
  then have m: "map_of d' = map_of d"
    by (simp add: map_of_inject_set)
  from a have "set (map fst d') = set (map fst d)" by simp
  with a have "sort (map fst d') = sort (map fst d)"
    by (metis distinct_remdups_id sorted_list_of_set_sort_remdups)
  then show "process_configs d' = process_configs d"
    using process_configs_loop_cong [OF m, of "[]" "sort (map fst d)"]
    by (simp add: process_configs_def)
qed

lemma interim_simple_sound:
  "\<forall>cf s k v. parsestyle cf = PARSE_SIMPLE \<and> ci_get lower_pair (interim_dict cf) (s, k) = Some v
          \<longrightarrow> s = [] \<and> (\<exists>k'. (k', v) \<in> set (simple_items cf) \<and> lower k' = lower k)"
proof (intro allI impI)
  fix cf s k v
  assume a: "parsestyle cf = PARSE_SIMPLE \<and> ci_get lower_pair (interim_dict cf) (s, k) = Some v"
  then have "ci_get lower_pair (CaseInsensitiveDict lower_pair
               (dict_of (map (\<lambda>(k, v). (([], k), v)) (simple_items cf)))) (s, k) = Some v"
    using interim_dict_simple [of cf] by simp
  from ci_of_pairs_sound [OF this] obtain q where
    "(q, v) \<in> set (map (\<lambda>(k, v). (([], k), v)) (simple_items cf))" "lower_pair q = lower_pair (s, k)"
    by blast
  then show "s = [] \<and> (\<exists>k'. (k', v) \<in> set (simple_items cf) \<and> lower k' = lower k)"
    by (auto simp: lower_pair_def lower_def)
qed

lemma interim_simple_complete:
  "\<forall>cf k v. parsestyle cf = PARSE_SIMPLE \<and> (k, v) \<in> set (simple_items cf)
          \<and> (\<forall>(k', v') \<in> set (simple_items cf). lower k' = lower k \<longrightarrow> v' = v)
          \<longrightarrow> ci_get lower_pair (interim_dict cf) ([], k) = Some v"
proof (intro allI impI)
  fix cf :: ConfigFile and k v
  assume a: "parsestyle cf = PARSE_SIMPLE \<and> (k, v) \<in> set (simple_items cf)
          \<and> (\<forall>(k', v') \<in> set (simple_items cf). lower k' = lower k \<longrightarrow> v' = v)"
  have "ci_get lower_pair (CaseInsensitiveDict lower_pair
          (dict_of (map (\<lambda>(k, v). (([], k), v)) (simple_items cf)))) ([], k) = Some v"
  proof (rule ci_of_pairs_complete [where k = "([], k)"])
    show "(([], k), v) \<in> set (map (\<lambda>(k, v). (([], k), v)) (simple_items cf))"
      using a by force
    show "lower_pair ([], k) = lower_pair ([], k)" by simp
    show "v' = v"
      if "(k', v') \<in> set (map (\<lambda>(k, v). (([], k), v)) (simple_items cf))"
        and "lower_pair k' = lower_pair ([], k)" for k' v'
      using that a by (auto simp: lower_pair_def)
  qed
  with a show "ci_get lower_pair (interim_dict cf) ([], k) = Some v"
    using interim_dict_simple [of cf] by simp
qed

lemma interim_full_sound:
  "\<forall>cf s k v. parsestyle cf = PARSE_FULL \<and> ci_get lower_pair (interim_dict cf) (s, k) = Some v
          \<longrightarrow> (\<exists>s' k'. ((s', k'), v) \<in> set (full_items cf)
                 \<and> lower s' = lower s \<and> lower k' = lower k)"
proof (intro allI impI)
  fix cf s k v
  assume a: "parsestyle cf = PARSE_FULL \<and> ci_get lower_pair (interim_dict cf) (s, k) = Some v"
  then have "ci_get lower_pair (CaseInsensitiveDict lower_pair
               (dict_of (map (\<lambda>((a, b), c). ((a, b), c)) (full_items cf)))) (s, k) = Some v"
    using interim_dict_full [of cf] by simp
  from ci_of_pairs_sound [OF this] obtain q where
    "(q, v) \<in> set (map (\<lambda>((a, b), c). ((a, b), c)) (full_items cf))" "lower_pair q = lower_pair (s, k)"
    by blast
  then show "\<exists>s' k'. ((s', k'), v) \<in> set (full_items cf) \<and> lower s' = lower s \<and> lower k' = lower k"
    by (cases q) (auto simp: lower_pair_def)
qed

lemma interim_full_complete:
  "\<forall>cf s k v. parsestyle cf = PARSE_FULL \<and> ((s, k), v) \<in> set (full_items cf)
          \<and> (\<forall>((s', k'), v') \<in> set (full_items cf).
                lower s' = lower s \<and> lower k' = lower k \<longrightarrow> v' = v)
          \<longrightarrow> ci_get lower_pair (interim_dict cf) (s, k) = Some v"
proof (intro allI impI)
  fix cf :: ConfigFile and s k v
  assume a: "parsestyle cf = PARSE_FULL \<and> ((s, k), v) \<in> set (full_items cf)
          \<and> (\<forall>((s', k'), v') \<in> set (full_items cf).
                lower s' = lower s \<and> lower k' = lower k \<longrightarrow> v' = v)"
  have "ci_get lower_pair (CaseInsensitiveDict lower_pair
          (dict_of (map (\<lambda>((a, b), c). ((a, b), c)) (full_items cf)))) (s, k) = Some v"
  proof (rule ci_of_pairs_complete [where k = "(s, k)"])
    show "((s, k), v) \<in> set (map (\<lambda>((a, b), c). ((a, b), c)) (full_items cf))"
      using a by force
    show "lower_pair (s, k) = lower_pair (s, k)" by simp
    show "v' = v"
      if "(k', v') \<in> set (map (\<lambda>((a, b), c). ((a, b), c)) (full_items cf))"
        and "lower_pair k' = lower_pair (s, k)" for k' v'
      using that a by (auto simp: lower_pair_def)
  qed
  with a show "ci_get lower_pair (interim_dict cf) (s, k) = Some v"
    using interim_dict_full [of cf] by simp
qed

text \<open>
  Claim C2.  \<open>process_configs\<close> never raises.  The value it serves for a (section, key)
  pair, compared case-insensitively, is that of the latest-sorting namespace whose source
  has the pair: a namespace overwrites the overlapping entries of every namespace that
  sorts before it.  Two dictionaries with the same entries, entered in different orders,
  give the same result.  Every entry of a SIMPLE source is under the section \<open>''\<close>, every
  entry of a FULL source under its own (section, key) pair.
\<close>

theorem process_configs_stacks:
  "(\<exists>r. process_configs d = Inr r
        \<and> (\<forall>q. ci_get lower_pair r q = stacked_value d (rev (sort (map fst d))) q)
        \<and> (\<forall>q b cfb vb.
              map_of d b = Some cfb \<and> ci_get lower_pair (interim_dict cfb) q = Some vb
              \<and> (\<forall>n cf. map_of d n = Some cf \<and> b < n
                    \<longrightarrow> ci_get lower_pair (interim_dict cf) q = None)
              \<longrightarrow> ci_get lower_pair r q = Some vb))
   \<and> (\<forall>d'. distinct (map fst d) \<and> distinct (map fst d') \<and> set d' = set d
          \<longrightarrow> process_configs d' = process_configs d)
   \<and> (\<forall>cf s k v. parsestyle cf = PARSE_SIMPLE \<and> ci_get lower_pair (interim_dict cf) (s, k) = Some v
          \<longrightarrow> s = [] \<and> (\<exists>k'. (k', v) \<in> set (simple_items cf) \<and> lower k' = lower k))
   \<and> (\<forall>cf k v. parsestyle cf = PARSE_SIMPLE \<and> (k, v) \<in> set (simple_items cf)
          \<and> (\<forall>(k', v') \<in> set (simple_items cf). lower k' = lower k \<longrightarrow> v' = v)
          \<longrightarrow> ci_get lower_pair (interim_dict cf) ([], k) = Some v)
   \<and> (\<forall>cf s k v. parsestyle cf = PARSE_FULL \<and> ci_get lower_pair (interim_dict cf) (s, k) = Some v
          \<longrightarrow> (\<exists>s' k'. ((s', k'), v) \<in> set (full_items cf)
                 \<and> lower s' = lower s \<and> lower k' = lower k))
   \<and> (\<forall>cf s k v. parsestyle cf = PARSE_FULL \<and> ((s, k), v) \<in> set (full_items cf)
          \<and> (\<forall>((s', k'), v') \<in> set (full_items cf).
                lower s' = lower s \<and> lower k' = lower k \<longrightarrow> v' = v)
          \<longrightarrow> ci_get lower_pair (interim_dict cf) (s, k) = Some v)"
proof -
  note process_configs_lookup [of d]
  moreover note process_configs_order [of d]
  moreover note interim_simple_sound
  moreover note interim_simple_complete
  moreover note interim_full_sound
  moreover note interim_full_complete
  ultimately show ?thesis
    by (rule conjI [OF _ conjI [OF _ conjI [OF _ conjI [OF _ conjI]]]])
qed


theorem process_configs_stacks_witness:
  "(\<exists>r. process_configs dict_ba = Inr r
        \<and> ci_get lower_pair r ([], ''K'') = Some ''3''
        \<and> ci_get lower_pair r ([], ''J'') = Some ''a''
        \<and> ci_get lower_pair r (''SEC'', ''k'') = Some ''2'')
   \<and> process_configs dict_ab = process_configs dict_ba
   \<and> ci_get lower_pair (interim_dict srcA) ([], ''k'') = Some ''1''"
proof -
  note t = process_configs_stacks [of dict_ba]
  from t [THEN conjunct1] obtain r where r: "process_configs dict_ba = Inr r"
    and rq: "\<And>q. ci_get lower_pair r q = stacked_value dict_ba (rev (sort (map fst dict_ba))) q"
    by blast
  have "stacked_value dict_ba (rev (sort (map fst dict_ba))) ([], ''K'') = Some ''3''"
    "stacked_value dict_ba (rev (sort (map fst dict_ba))) ([], ''J'') = Some ''a''"
    "stacked_value dict_ba (rev (sort (map fst dict_ba))) (''SEC'', ''k'') = Some ''2''"
    by code_simp+
  with r rq have 1: "\<exists>r. process_configs dict_ba = Inr r
        \<and> ci_get lower_pair r ([], ''K'') = Some ''3''
        \<and> ci_get lower_pair r ([], ''J'') = Some ''a''
        \<and> ci_get lower_pair r (''SEC'', ''k'') = Some ''2''"
    by simp
  have "distinct (map fst dict_ba) \<and> distinct (map fst dict_ab) \<and> set dict_ab = set dict_ba"
    by (auto simp: dict_ba_def dict_ab_def)
  with t [THEN conjunct2, THEN conjunct1] have 2: "process_configs dict_ab = process_configs dict_ba"
    by blast
  have "parsestyle srcA = PARSE_SIMPLE \<and> (''k'', ''1'') \<in> set (simple_items srcA)
          \<and> (\<forall>(k', v') \<in> set (simple_items srcA). lower k' = lower ''k'' \<longrightarrow> v' = ''1'')"
    by (simp add: srcA_def simple_source_def lower_def lower_char_def lowers_def uppers_def)
  with t [THEN conjunct2, THEN conjunct2, THEN conjunct2, THEN conjunct1]
  have 3: "ci_get lower_pair (interim_dict srcA) ([], ''k'') = Some ''1''"
    by blast
  from 1 2 3 show ?thesis by blast
qed

end
